theory Spec2Isabelle
  imports Main
begin

section \<open>Data model\<close>

text \<open>
  Modelled from the spec: the declarations of the message types (the \<open>types\<close> module of
  the \<open>ai\<close> package) are not among the sources. The fields below are the ones of the
  spec's data model (section 3) and the ones the functions of the sources read and write.
  JavaScript strings are modelled as \<^typ>\<open>string\<close>, numbers that count things as
  \<^typ>\<open>nat\<close>, an optional field \<open>f?: T\<close> as \<open>T option\<close>.
\<close>

datatype json =
    JNull
  | JBool bool
  | JNum int
  | JStr string
  | JArr "json list"
  | JObj "(string \<times> json) list"

datatype StopReason = Stop | Length | ToolUse | Aborted | Error

text \<open>The amounts of \<open>cost\<close> are fractions of a currency unit; the functions below only
  copy them, and they are modelled as integers (an amount in some small unit).\<close>

record Cost =
  c_input :: int
  c_output :: int
  c_cacheRead :: int
  c_cacheWrite :: int
  c_total :: int

record Usage =
  u_input :: nat
  u_output :: nat
  u_cacheRead :: nat
  u_cacheWrite :: nat
  u_totalTokens :: nat
  u_cost :: Cost

record Model =
  m_id :: string
  m_api :: string
  m_provider :: string

text \<open>Content of user and toolResult messages: \<open>TextContent | ImageContent\<close>.\<close>

datatype ContentPart =
    TextPart string "string option"
  | ImagePart string string

record ToolCall =
  tc_id :: string
  tc_name :: string
  tc_arguments :: json
  tc_thoughtSignature :: "string option"
  tc_partialJson :: "string option"

text \<open>Content of assistant messages: \<open>TextContent | ThinkingContent | ToolCall\<close>; the
  second argument of \<open>Text\<close> is \<open>textSignature\<close>, of \<open>Thinking\<close> \<open>thinkingSignature\<close>.\<close>

datatype AssistantBlock =
    Text string "string option"
  | Thinking string "string option"
  | ToolCallBlock ToolCall

datatype UserContent = ContentString string | ContentParts "ContentPart list"

record UserMessage =
  um_content :: UserContent
  um_timestamp :: nat

record AssistantMessage =
  am_content :: "AssistantBlock list"
  am_api :: string
  am_provider :: string
  am_model :: string
  am_usage :: Usage
  am_stopReason :: StopReason
  am_errorMessage :: "string option"
  am_timestamp :: nat

record ToolResultMessage =
  tr_toolCallId :: string
  tr_toolName :: string
  tr_content :: "ContentPart list"
  tr_details :: "json option"
  tr_isError :: bool
  tr_timestamp :: nat

text \<open>\<open>Message\<close>, the union discriminated by \<open>role\<close>.\<close>

datatype Message =
    UserM UserMessage
  | AssistantM AssistantMessage
  | ToolResultM ToolResultMessage

text \<open>JavaScript truthiness of an optional string: present and not empty.\<close>

definition truthy :: "string option \<Rightarrow> bool" where
  "truthy s = (case s of None \<Rightarrow> False | Some t \<Rightarrow> t \<noteq> [])"

text \<open>\<open>s.trim() === ""\<close>: every character of \<open>s\<close> is white space. Characters are
  code units below 256; the white space among them is TAB, LF, VT, FF, CR, space and
  NBSP.\<close>

definition isWhiteSpace :: "char \<Rightarrow> bool" where
  "isWhiteSpace c = (of_char c \<in> {9, 10, 11, 12, 13, 32, 160 :: nat})"

definition trimIsEmpty :: "string \<Rightarrow> bool" where
  "trimIsEmpty s = list_all isWhiteSpace s"

section \<open>Cross-model message transform\<close>

type_synonym NormalizeToolCallId = "string \<Rightarrow> Model \<Rightarrow> AssistantMessage \<Rightarrow> string"

text \<open>The body of the \<open>flatMap\<close> over the content of one assistant message. The map
  \<open>toolCallIdMap\<close> is the one the callback writes to; it is passed in and returned.\<close>

fun transformBlock ::
  "Model \<Rightarrow> NormalizeToolCallId option \<Rightarrow> AssistantMessage \<Rightarrow> bool \<Rightarrow>
   (string \<rightharpoonup> string) \<Rightarrow> AssistantBlock \<Rightarrow> AssistantBlock list \<times> (string \<rightharpoonup> string)" where
  "transformBlock model normalizeToolCallId assistantMsg isSameModel toolCallIdMap (Thinking thinking thinkingSignature) =
     (if isSameModel \<and> truthy thinkingSignature then ([Thinking thinking thinkingSignature], toolCallIdMap)
      else if thinking = [] \<or> trimIsEmpty thinking then ([], toolCallIdMap)
      else if isSameModel then ([Thinking thinking thinkingSignature], toolCallIdMap)
      else ([Text thinking None], toolCallIdMap))"
| "transformBlock model normalizeToolCallId assistantMsg isSameModel toolCallIdMap (Text text textSignature) =
     (if isSameModel then ([Text text textSignature], toolCallIdMap)
      else ([Text text None], toolCallIdMap))"
| "transformBlock model normalizeToolCallId assistantMsg isSameModel toolCallIdMap (ToolCallBlock toolCall) =
     (let normalizedToolCall =
            (if \<not> isSameModel \<and> truthy (tc_thoughtSignature toolCall)
             then toolCall\<lparr>tc_thoughtSignature := None\<rparr> else toolCall)
      in case normalizeToolCallId of
           Some normalizer \<Rightarrow>
             (if \<not> isSameModel then
                (let normalizedId = normalizer (tc_id toolCall) model assistantMsg
                 in if normalizedId \<noteq> tc_id toolCall
                    then ([ToolCallBlock (normalizedToolCall\<lparr>tc_id := normalizedId\<rparr>)],
                          toolCallIdMap(tc_id toolCall \<mapsto> normalizedId))
                    else ([ToolCallBlock normalizedToolCall], toolCallIdMap))
              else ([ToolCallBlock normalizedToolCall], toolCallIdMap))
         | None \<Rightarrow> ([ToolCallBlock normalizedToolCall], toolCallIdMap))"

fun transformContent ::
  "Model \<Rightarrow> NormalizeToolCallId option \<Rightarrow> AssistantMessage \<Rightarrow> bool \<Rightarrow>
   (string \<rightharpoonup> string) \<Rightarrow> AssistantBlock list \<Rightarrow> AssistantBlock list \<times> (string \<rightharpoonup> string)" where
  "transformContent model normalizeToolCallId assistantMsg isSameModel toolCallIdMap [] = ([], toolCallIdMap)"
| "transformContent model normalizeToolCallId assistantMsg isSameModel toolCallIdMap (block # blocks) =
     (let (bs, toolCallIdMap1) = transformBlock model normalizeToolCallId assistantMsg isSameModel toolCallIdMap block;
          (rest, toolCallIdMap2) = transformContent model normalizeToolCallId assistantMsg isSameModel toolCallIdMap1 blocks
      in (bs @ rest, toolCallIdMap2))"

definition isSameModel :: "AssistantMessage \<Rightarrow> Model \<Rightarrow> bool" where
  "isSameModel assistantMsg model =
     (am_provider assistantMsg = m_provider model \<and>
      am_api assistantMsg = m_api model \<and>
      am_model assistantMsg = m_id model)"

text \<open>The callback of the first pass, applied to one message. \<open>Message\<close> has the three
  roles below; the branches that the source keeps for any other role cannot be reached
  by a value of its type.\<close>

fun transformMessage ::
  "Model \<Rightarrow> NormalizeToolCallId option \<Rightarrow> (string \<rightharpoonup> string) \<Rightarrow> Message \<Rightarrow>
   Message \<times> (string \<rightharpoonup> string)" where
  "transformMessage model normalizeToolCallId toolCallIdMap (UserM msg) = (UserM msg, toolCallIdMap)"
| "transformMessage model normalizeToolCallId toolCallIdMap (ToolResultM msg) =
     (case toolCallIdMap (tr_toolCallId msg) of
        Some normalizedId \<Rightarrow>
          (if normalizedId \<noteq> [] \<and> normalizedId \<noteq> tr_toolCallId msg
           then (ToolResultM (msg\<lparr>tr_toolCallId := normalizedId\<rparr>), toolCallIdMap)
           else (ToolResultM msg, toolCallIdMap))
      | None \<Rightarrow> (ToolResultM msg, toolCallIdMap))"
| "transformMessage model normalizeToolCallId toolCallIdMap (AssistantM assistantMsg) =
     (let (transformedContent, toolCallIdMap1) =
            transformContent model normalizeToolCallId assistantMsg
              (isSameModel assistantMsg model) toolCallIdMap (am_content assistantMsg)
      in (AssistantM (assistantMsg\<lparr>am_content := transformedContent\<rparr>), toolCallIdMap1))"

text \<open>First pass: \<open>messages.map\<close>, left to right, the map threaded through.\<close>

fun firstPass ::
  "Model \<Rightarrow> NormalizeToolCallId option \<Rightarrow> (string \<rightharpoonup> string) \<Rightarrow> Message list \<Rightarrow> Message list" where
  "firstPass model normalizeToolCallId toolCallIdMap [] = []"
| "firstPass model normalizeToolCallId toolCallIdMap (msg # messages) =
     (let (msg1, toolCallIdMap1) = transformMessage model normalizeToolCallId toolCallIdMap msg
      in msg1 # firstPass model normalizeToolCallId toolCallIdMap1 messages)"

text \<open>Second pass. \<open>Date.now()\<close> reads a clock that the function does not control: the
  clock is a state \<open>'w\<close> with a reading operation \<open>dateNow\<close>, which returns the time and
  the state after the reading.\<close>

record 'w RepairState =
  result :: "Message list"
  pendingToolCalls :: "ToolCall list"
  existingToolResultIds :: "string set"
  world :: 'w

definition syntheticToolResult :: "ToolCall \<Rightarrow> nat \<Rightarrow> Message" where
  "syntheticToolResult tc now =
     ToolResultM \<lparr>tr_toolCallId = tc_id tc, tr_toolName = tc_name tc,
                  tr_content = [TextPart ''No result provided'' None],
                  tr_details = None, tr_isError = True, tr_timestamp = now\<rparr>"

text \<open>The loop \<open>for (const tc of pendingToolCalls)\<close>: the messages it pushes and the
  clock after it.\<close>

fun insertSynthetic ::
  "('w \<Rightarrow> nat \<times> 'w) \<Rightarrow> string set \<Rightarrow> 'w \<Rightarrow> ToolCall list \<Rightarrow> Message list \<times> 'w" where
  "insertSynthetic dateNow existing w [] = ([], w)"
| "insertSynthetic dateNow existing w (tc # tcs) =
     (if tc_id tc \<notin> existing
      then (let (now, w1) = dateNow w;
                (ms, w2) = insertSynthetic dateNow existing w1 tcs
            in (syntheticToolResult tc now # ms, w2))
      else insertSynthetic dateNow existing w tcs)"

definition flushPending :: "('w \<Rightarrow> nat \<times> 'w) \<Rightarrow> 'w RepairState \<Rightarrow> 'w RepairState" where
  "flushPending dateNow st =
     (if pendingToolCalls st \<noteq> [] then
        (let (ms, w1) = insertSynthetic dateNow (existingToolResultIds st) (world st) (pendingToolCalls st)
         in st\<lparr>result := result st @ ms, pendingToolCalls := [],
                existingToolResultIds := {}, world := w1\<rparr>)
      else st)"

fun isToolCall :: "AssistantBlock \<Rightarrow> bool" where
  "isToolCall (ToolCallBlock tc) = True"
| "isToolCall b = False"

fun toolCallOf :: "AssistantBlock \<Rightarrow> ToolCall list" where
  "toolCallOf (ToolCallBlock tc) = [tc]"
| "toolCallOf b = []"

text \<open>\<open>content.filter((b) => b.type === "toolCall") as ToolCall[]\<close>\<close>

definition toolCallsOf :: "AssistantMessage \<Rightarrow> ToolCall list" where
  "toolCallsOf assistantMsg = concat (map toolCallOf (filter isToolCall (am_content assistantMsg)))"

definition isErrored :: "AssistantMessage \<Rightarrow> bool" where
  "isErrored assistantMsg = (am_stopReason assistantMsg = Error \<or> am_stopReason assistantMsg = Aborted)"

text \<open>The body of the second loop, for one message.\<close>

fun repairStep :: "('w \<Rightarrow> nat \<times> 'w) \<Rightarrow> 'w RepairState \<Rightarrow> Message \<Rightarrow> 'w RepairState" where
  "repairStep dateNow st (AssistantM assistantMsg) =
     (let st1 = flushPending dateNow st
      in if isErrored assistantMsg then st1
         else (let toolCalls = toolCallsOf assistantMsg;
                   st2 = (if toolCalls \<noteq> []
                          then st1\<lparr>pendingToolCalls := toolCalls, existingToolResultIds := {}\<rparr>
                          else st1)
               in st2\<lparr>result := result st2 @ [AssistantM assistantMsg]\<rparr>))"
| "repairStep dateNow st (ToolResultM msg) =
     st\<lparr>existingToolResultIds := insert (tr_toolCallId msg) (existingToolResultIds st),
        result := result st @ [ToolResultM msg]\<rparr>"
| "repairStep dateNow st (UserM msg) =
     (let st1 = flushPending dateNow st
      in st1\<lparr>result := result st1 @ [UserM msg]\<rparr>)"

definition secondPass :: "('w \<Rightarrow> nat \<times> 'w) \<Rightarrow> 'w \<Rightarrow> Message list \<Rightarrow> 'w RepairState" where
  "secondPass dateNow w transformed =
     foldl (repairStep dateNow)
       \<lparr>result = [], pendingToolCalls = [], existingToolResultIds = {}, world = w\<rparr> transformed"

definition transformMessages ::
  "('w \<Rightarrow> nat \<times> 'w) \<Rightarrow> 'w \<Rightarrow> Message list \<Rightarrow> Model \<Rightarrow> NormalizeToolCallId option \<Rightarrow> Message list" where
  "transformMessages dateNow w messages model normalizeToolCallId =
     result (secondPass dateNow w (firstPass model normalizeToolCallId Map.empty messages))"

text \<open>The second pass as a list function: what the loop appends to \<open>result\<close> when
  it runs over the messages from the state \<open>(pendingToolCalls, existingToolResultIds,
  world)\<close>. It is proved equal to the loop of \<open>repairStep\<close> (\<open>foldl_repairStep_emit\<close>).\<close>

fun emit :: "('w \<Rightarrow> nat \<times> 'w) \<Rightarrow> ToolCall list \<Rightarrow> string set \<Rightarrow> 'w \<Rightarrow> Message list \<Rightarrow> Message list" where
  "emit d p e w [] = []"
| "emit d p e w (UserM u # ms) =
     fst (insertSynthetic d e w p) @
       UserM u # emit d [] (if p \<noteq> [] then {} else e) (snd (insertSynthetic d e w p)) ms"
| "emit d p e w (ToolResultM r # ms) =
     ToolResultM r # emit d p (insert (tr_toolCallId r) e) w ms"
| "emit d p e w (AssistantM a # ms) =
     fst (insertSynthetic d e w p) @
       (if isErrored a then emit d [] (if p \<noteq> [] then {} else e) (snd (insertSynthetic d e w p)) ms
        else if toolCallsOf a \<noteq> []
          then AssistantM a # emit d (toolCallsOf a) {} (snd (insertSynthetic d e w p)) ms
          else AssistantM a # emit d [] (if p \<noteq> [] then {} else e) (snd (insertSynthetic d e w p)) ms)"



text \<open>The same, asked only of the assistant messages that a user or assistant message
  follows somewhere later in the list.\<close>

fun isTurn :: "Message \<Rightarrow> bool" where
  "isTurn (ToolResultM r) = False"
| "isTurn m = True"


fun isSyntheticResult :: "Message \<Rightarrow> bool" where
  "isSyntheticResult (ToolResultM r) =
     (tr_content r = [TextPart ''No result provided'' None] \<and> tr_isError r)"
| "isSyntheticResult m = False"

fun isResult :: "Message \<Rightarrow> bool" where
  "isResult (ToolResultM r) = True"
| "isResult m = False"

fun resultIdOf :: "Message \<Rightarrow> string set" where
  "resultIdOf (ToolResultM r) = {tr_toolCallId r}"
| "resultIdOf m = {}"

definition resultIds :: "Message list \<Rightarrow> string set" where
  "resultIds ms = (\<Union>m \<in> set ms. resultIdOf m)"

text \<open>A normalizer that maps each of its values to itself, whatever the source message.\<close>

definition idempotentNormalizer :: "Model \<Rightarrow> NormalizeToolCallId option \<Rightarrow> bool" where
  "idempotentNormalizer M n =
     (case n of None \<Rightarrow> True | Some f \<Rightarrow> \<forall>i s s'. f (f i M s) M s' = f i M s)"

definition stableBlock :: "Model \<Rightarrow> NormalizeToolCallId option \<Rightarrow> bool \<Rightarrow> AssistantBlock \<Rightarrow> bool" where
  "stableBlock M n same b = (\<forall>a. transformBlock M n a same Map.empty b = ([b], Map.empty))"

definition stableMessage :: "Model \<Rightarrow> NormalizeToolCallId option \<Rightarrow> Message \<Rightarrow> bool" where
  "stableMessage M n x = (transformMessage M n Map.empty x = (x, Map.empty))"

definition noErrored :: "Message list \<Rightarrow> bool" where
  "noErrored ms = (\<forall>m \<in> set ms. \<forall>a. m = AssistantM a \<longrightarrow> \<not> isErrored a)"

text \<open>Example values used to evaluate the functions on concrete inputs. The clock
  \<open>tickClock\<close> returns its state and advances by one.\<close>

definition tickClock :: "nat \<Rightarrow> nat \<times> nat" where
  "tickClock w = (w, Suc w)"

definition zeroUsage :: Usage where
  "zeroUsage = \<lparr>u_input = 0, u_output = 0, u_cacheRead = 0, u_cacheWrite = 0, u_totalTokens = 0,
     u_cost = \<lparr>c_input = 0, c_output = 0, c_cacheRead = 0, c_cacheWrite = 0, c_total = 0\<rparr>\<rparr>"

definition modelA :: Model where
  "modelA = \<lparr>m_id = ''a'', m_api = ''api'', m_provider = ''p''\<rparr>"

definition modelB :: Model where
  "modelB = \<lparr>m_id = ''b'', m_api = ''api'', m_provider = ''p''\<rparr>"

definition assistantOf :: "Model \<Rightarrow> StopReason \<Rightarrow> AssistantBlock list \<Rightarrow> AssistantMessage" where
  "assistantOf model stopReason content =
     \<lparr>am_content = content, am_api = m_api model, am_provider = m_provider model,
      am_model = m_id model, am_usage = zeroUsage, am_stopReason = stopReason,
      am_errorMessage = None, am_timestamp = 0\<rparr>"

definition callOf :: "string \<Rightarrow> ToolCall" where
  "callOf i = \<lparr>tc_id = i, tc_name = ''ls'', tc_arguments = JObj [],
               tc_thoughtSignature = None, tc_partialJson = None\<rparr>"

definition userOf :: "string \<Rightarrow> Message" where
  "userOf s = UserM \<lparr>um_content = ContentString s, um_timestamp = 0\<rparr>"

definition resultRec :: "string \<Rightarrow> ToolResultMessage" where
  "resultRec i = \<lparr>tr_toolCallId = i, tr_toolName = ''ls'', tr_content = [],
                 tr_details = None, tr_isError = False, tr_timestamp = 0\<rparr>"

definition resultOf :: "string \<Rightarrow> Message" where
  "resultOf i = ToolResultM (resultRec i)"

definition appendX :: NormalizeToolCallId where
  "appendX i model source = i @ ''x''"

definition firstTwo :: NormalizeToolCallId where
  "firstTwo i model source = take 2 i"

section \<open>Compaction: token estimate and cut point\<close>

text \<open>
  Modelled from the spec: the declarations of the session entries (the session manager)
  are not among the sources. An entry carries its id and, of its payload, what the
  compaction functions read. The custom message variants are the ones declared in the
  sources (\<open>BashExecutionMessage\<close>, \<open>CustomMessage\<close>, \<open>BranchSummaryMessage\<close>,
  \<open>CompactionSummaryMessage\<close>).
\<close>

record BashExecutionMessage =
  be_command :: string
  be_output :: string
  be_exitCode :: "int option"
  be_cancelled :: bool
  be_truncated :: bool
  be_fullOutputPath :: "string option"
  be_timestamp :: nat
  be_excludeFromContext :: "bool option"

record CustomMessage =
  cm_customType :: string
  cm_content :: UserContent
  cm_display :: bool
  cm_details :: "json option"
  cm_timestamp :: nat

record BranchSummaryMessage =
  bs_summary :: string
  bs_fromId :: string
  bs_timestamp :: nat

record CompactionSummaryMessage =
  cs_summary :: string
  cs_tokensBefore :: nat
  cs_timestamp :: nat

text \<open>\<open>AgentMessage\<close>: a \<open>Message\<close> or one of the custom variants.\<close>

datatype AgentMessage =
    Llm Message
  | BashExecutionM BashExecutionMessage
  | CustomM CustomMessage
  | BranchSummaryM BranchSummaryMessage
  | CompactionSummaryM CompactionSummaryMessage

datatype SessionEntry =
    MessageEntry string AgentMessage
  | ThinkingLevelChangeEntry string
  | ModelChangeEntry string
  | CompactionEntry string string nat
  | BranchSummaryEntry string string
  | CustomEntry string
  | CustomMessageEntry string UserContent
  | LabelEntry string

datatype JsError = TypeError

text \<open>The loop over the blocks of a user message: only text blocks count.\<close>

fun userBlockChars :: "ContentPart \<Rightarrow> nat" where
  "userBlockChars (TextPart text sg) = length text"
| "userBlockChars (ImagePart dat mimeType) = 0"

text \<open>The loop over the blocks of a custom or toolResult message: a text block counts
  its length, an image block 4800 characters.\<close>

fun resultBlockChars :: "ContentPart \<Rightarrow> nat" where
  "resultBlockChars (TextPart text sg) = length text"
| "resultBlockChars (ImagePart dat mimeType) = 4800"

text \<open>The loop over the blocks of an assistant message. \<open>JSON.stringify\<close> is a
  parameter.\<close>

fun assistantBlockChars :: "(json \<Rightarrow> string) \<Rightarrow> AssistantBlock \<Rightarrow> nat" where
  "assistantBlockChars stringify (Text text sg) = length text"
| "assistantBlockChars stringify (Thinking thinking sg) = length thinking"
| "assistantBlockChars stringify (ToolCallBlock tc) =
     length (tc_name tc) + length (stringify (tc_arguments tc))"

text \<open>\<open>Math.ceil(chars / 4)\<close>\<close>

definition ceilDiv4 :: "nat \<Rightarrow> nat" where
  "ceilDiv4 chars = (chars + 3) div 4"

fun estimateTokens :: "(json \<Rightarrow> string) \<Rightarrow> AgentMessage \<Rightarrow> nat" where
  "estimateTokens stringify (Llm (UserM message)) =
     (case um_content message of
        ContentString content \<Rightarrow> ceilDiv4 (length content)
      | ContentParts content \<Rightarrow> ceilDiv4 (sum_list (map userBlockChars content)))"
| "estimateTokens stringify (Llm (AssistantM assistant)) =
     ceilDiv4 (sum_list (map (assistantBlockChars stringify) (am_content assistant)))"
| "estimateTokens stringify (CustomM message) =
     (case cm_content message of
        ContentString content \<Rightarrow> ceilDiv4 (length content)
      | ContentParts content \<Rightarrow> ceilDiv4 (sum_list (map resultBlockChars content)))"
| "estimateTokens stringify (Llm (ToolResultM message)) =
     ceilDiv4 (sum_list (map resultBlockChars (tr_content message)))"
| "estimateTokens stringify (BashExecutionM message) =
     ceilDiv4 (length (be_command message) + length (be_output message))"
| "estimateTokens stringify (BranchSummaryM message) = ceilDiv4 (length (bs_summary message))"
| "estimateTokens stringify (CompactionSummaryM message) = ceilDiv4 (length (cs_summary message))"

text \<open>The estimate as the specification words it: the characters of the textual fields
  divided by four, rounded up, plus 1200 tokens for every image block of the content,
  whatever the role.\<close>

fun partTextChars :: "ContentPart \<Rightarrow> nat" where
  "partTextChars (TextPart text sg) = length text"
| "partTextChars (ImagePart dat mimeType) = 0"

fun isImage :: "ContentPart \<Rightarrow> bool" where
  "isImage (ImagePart dat mimeType) = True"
| "isImage (TextPart text sg) = False"

fun contentTextChars :: "UserContent \<Rightarrow> nat" where
  "contentTextChars (ContentString content) = length content"
| "contentTextChars (ContentParts content) = sum_list (map partTextChars content)"

fun contentImages :: "UserContent \<Rightarrow> nat" where
  "contentImages (ContentString content) = 0"
| "contentImages (ContentParts content) = length (filter isImage content)"

fun specTextChars :: "(json \<Rightarrow> string) \<Rightarrow> AgentMessage \<Rightarrow> nat" where
  "specTextChars stringify (Llm (UserM message)) = contentTextChars (um_content message)"
| "specTextChars stringify (Llm (AssistantM assistant)) =
     sum_list (map (assistantBlockChars stringify) (am_content assistant))"
| "specTextChars stringify (Llm (ToolResultM message)) =
     sum_list (map partTextChars (tr_content message))"
| "specTextChars stringify (CustomM message) = contentTextChars (cm_content message)"
| "specTextChars stringify (BashExecutionM message) =
     length (be_command message) + length (be_output message)"
| "specTextChars stringify (BranchSummaryM message) = length (bs_summary message)"
| "specTextChars stringify (CompactionSummaryM message) = length (cs_summary message)"

fun specImages :: "AgentMessage \<Rightarrow> nat" where
  "specImages (Llm (UserM message)) = contentImages (um_content message)"
| "specImages (Llm (ToolResultM message)) = length (filter isImage (tr_content message))"
| "specImages (CustomM message) = contentImages (cm_content message)"
| "specImages message = 0"

definition specEstimateTokens :: "(json \<Rightarrow> string) \<Rightarrow> AgentMessage \<Rightarrow> nat" where
  "specEstimateTokens stringify message =
     ceilDiv4 (specTextChars stringify message) + 1200 * specImages message"

text \<open>\<open>entries[i].type\<close>: reading the type of an entry that is not there throws.
  Indices are array indices, natural numbers; the budget \<open>keepRecentTokens\<close> is an
  integer.\<close>

definition entryAt :: "SessionEntry list \<Rightarrow> nat \<Rightarrow> JsError + SessionEntry" where
  "entryAt entries i = (if i < length entries then Inr (entries ! i) else Inl TypeError)"

fun isToolResultMessage :: "AgentMessage \<Rightarrow> bool" where
  "isToolResultMessage (Llm (ToolResultM message)) = True"
| "isToolResultMessage message = False"

text \<open>What one round of the loop of \<open>findValidCutPoints\<close> pushes for the entry at \<open>i\<close>:
  the \<open>switch\<close>, then the \<open>if\<close> after it.\<close>

fun cutPointPushes :: "SessionEntry \<Rightarrow> nat \<Rightarrow> nat list" where
  "cutPointPushes (MessageEntry eid message) i = (if isToolResultMessage message then [] else [i])"
| "cutPointPushes (BranchSummaryEntry eid summary) i = [i]"
| "cutPointPushes (CustomMessageEntry eid content) i = [i]"
| "cutPointPushes entry i = []"

fun findValidCutPointsLoop :: "SessionEntry list \<Rightarrow> nat list \<Rightarrow> nat list \<Rightarrow> JsError + nat list" where
  "findValidCutPointsLoop entries [] cutPoints = Inr cutPoints"
| "findValidCutPointsLoop entries (i # rest) cutPoints =
     (case entryAt entries i of
        Inl err \<Rightarrow> Inl err
      | Inr entry \<Rightarrow> findValidCutPointsLoop entries rest (cutPoints @ cutPointPushes entry i))"

definition findValidCutPoints :: "SessionEntry list \<Rightarrow> nat \<Rightarrow> nat \<Rightarrow> JsError + nat list" where
  "findValidCutPoints entries startIndex endIndex =
     findValidCutPointsLoop entries [startIndex..<endIndex] []"

fun startsTurn :: "SessionEntry \<Rightarrow> bool" where
  "startsTurn (BranchSummaryEntry eid summary) = True"
| "startsTurn (CustomMessageEntry eid content) = True"
| "startsTurn (MessageEntry eid (Llm (UserM message))) = True"
| "startsTurn (MessageEntry eid (BashExecutionM message)) = True"
| "startsTurn entry = False"

text \<open>\<open>findTurnStartIndex\<close>: the loop runs over the indices from \<open>entryIndex\<close> down to
  \<open>startIndex\<close>, given here as a list.\<close>

fun findTurnStartLoop :: "SessionEntry list \<Rightarrow> nat list \<Rightarrow> JsError + int" where
  "findTurnStartLoop entries [] = Inr (- 1)"
| "findTurnStartLoop entries (i # rest) =
     (case entryAt entries i of
        Inl err \<Rightarrow> Inl err
      | Inr entry \<Rightarrow> (if startsTurn entry then Inr (int i) else findTurnStartLoop entries rest))"

definition findTurnStartIndex :: "SessionEntry list \<Rightarrow> nat \<Rightarrow> nat \<Rightarrow> JsError + int" where
  "findTurnStartIndex entries entryIndex startIndex =
     findTurnStartLoop entries (rev [startIndex..<Suc entryIndex])"

record CutPointResult =
  firstKeptEntryIndex :: nat
  turnStartIndex :: int
  isSplitTurn :: bool

text \<open>The backward walk of \<open>findCutPoint\<close> over the indices \<open>endIndex - 1\<close> down to
  \<open>startIndex\<close>: the index at which the accumulated estimate reaches the budget, if any.\<close>

fun walkBack ::
  "(json \<Rightarrow> string) \<Rightarrow> SessionEntry list \<Rightarrow> int \<Rightarrow> nat list \<Rightarrow> nat \<Rightarrow> JsError + nat option" where
  "walkBack stringify entries keepRecentTokens [] accumulatedTokens = Inr None"
| "walkBack stringify entries keepRecentTokens (i # rest) accumulatedTokens =
     (case entryAt entries i of
        Inl err \<Rightarrow> Inl err
      | Inr (MessageEntry eid message) \<Rightarrow>
          (let accumulatedTokens1 = accumulatedTokens + estimateTokens stringify message
           in if int accumulatedTokens1 \<ge> keepRecentTokens then Inr (Some i)
              else walkBack stringify entries keepRecentTokens rest accumulatedTokens1)
      | Inr entry \<Rightarrow> walkBack stringify entries keepRecentTokens rest accumulatedTokens)"

text \<open>The inner loop: the first cut point at or after \<open>i\<close>; \<open>cutIndex\<close> keeps its
  default \<open>cutPoints[0]\<close> when there is none.\<close>

definition closestCutPoint :: "nat list \<Rightarrow> nat \<Rightarrow> nat" where
  "closestCutPoint cutPoints i =
     (case find (\<lambda>c. c \<ge> i) cutPoints of Some c \<Rightarrow> c | None \<Rightarrow> hd cutPoints)"

fun isCompactionEntry :: "SessionEntry \<Rightarrow> bool" where
  "isCompactionEntry (CompactionEntry eid summary tokensBefore) = True"
| "isCompactionEntry entry = False"

fun isMessageEntry :: "SessionEntry \<Rightarrow> bool" where
  "isMessageEntry (MessageEntry eid message) = True"
| "isMessageEntry entry = False"

text \<open>The \<open>while (cutIndex > startIndex)\<close> loop.\<close>

fun includeMetadata :: "SessionEntry list \<Rightarrow> nat \<Rightarrow> nat \<Rightarrow> JsError + nat" where
  "includeMetadata entries startIndex 0 = Inr 0"
| "includeMetadata entries startIndex (Suc c) =
     (if Suc c > startIndex then
        (case entryAt entries c of
           Inl err \<Rightarrow> Inl err
         | Inr prevEntry \<Rightarrow>
             (if isCompactionEntry prevEntry then Inr (Suc c)
              else if isMessageEntry prevEntry then Inr (Suc c)
              else includeMetadata entries startIndex c))
      else Inr (Suc c))"

fun isUserMessageEntry :: "SessionEntry \<Rightarrow> bool" where
  "isUserMessageEntry (MessageEntry eid (Llm (UserM message))) = True"
| "isUserMessageEntry entry = False"

definition findCutPoint ::
  "(json \<Rightarrow> string) \<Rightarrow> SessionEntry list \<Rightarrow> nat \<Rightarrow> nat \<Rightarrow> int \<Rightarrow> JsError + CutPointResult" where
  "findCutPoint stringify entries startIndex endIndex keepRecentTokens =
     (case findValidCutPoints entries startIndex endIndex of
        Inl err \<Rightarrow> Inl err
      | Inr cutPoints \<Rightarrow>
          if cutPoints = [] then
            Inr \<lparr>firstKeptEntryIndex = startIndex, turnStartIndex = - 1, isSplitTurn = False\<rparr>
          else
            (case walkBack stringify entries keepRecentTokens (rev [startIndex..<endIndex]) 0 of
               Inl err \<Rightarrow> Inl err
             | Inr reached \<Rightarrow>
                 (let cutIndex0 = (case reached of None \<Rightarrow> hd cutPoints
                                   | Some i \<Rightarrow> closestCutPoint cutPoints i)
                  in case includeMetadata entries startIndex cutIndex0 of
                       Inl err \<Rightarrow> Inl err
                     | Inr cutIndex \<Rightarrow>
                         (case entryAt entries cutIndex of
                            Inl err \<Rightarrow> Inl err
                          | Inr cutEntry \<Rightarrow>
                              (let isUserMessage = isUserMessageEntry cutEntry
                               in if isUserMessage then
                                    Inr \<lparr>firstKeptEntryIndex = cutIndex, turnStartIndex = - 1,
                                         isSplitTurn = False\<rparr>
                                  else
                                    (case findTurnStartIndex entries cutIndex startIndex of
                                       Inl err \<Rightarrow> Inl err
                                     | Inr turnStart \<Rightarrow>
                                         Inr \<lparr>firstKeptEntryIndex = cutIndex,
                                              turnStartIndex = turnStart,
                                              isSplitTurn = (turnStart \<noteq> - 1)\<rparr>))))))"

text \<open>The kinds of entry of the cut-point rule: a legal cut point, and the entries the
  leftward expansion passes over.\<close>

fun legalCutPoint :: "SessionEntry \<Rightarrow> bool" where
  "legalCutPoint (MessageEntry eid message) = (\<not> isToolResultMessage message)"
| "legalCutPoint (BranchSummaryEntry eid summary) = True"
| "legalCutPoint (CustomMessageEntry eid content) = True"
| "legalCutPoint entry = False"

definition metadataEntry :: "SessionEntry \<Rightarrow> bool" where
  "metadataEntry entry = (\<not> isMessageEntry entry \<and> \<not> isCompactionEntry entry)"

fun isToolResultEntry :: "SessionEntry \<Rightarrow> bool" where
  "isToolResultEntry (MessageEntry eid message) = isToolResultMessage message"
| "isToolResultEntry entry = False"

text \<open>Example values.\<close>

definition noStringify :: "json \<Rightarrow> string" where
  "noStringify j = ''{}''"

definition userEntry :: "string \<Rightarrow> SessionEntry" where
  "userEntry s = MessageEntry ''e'' (Llm (userOf s))"

definition assistantEntry :: "string \<Rightarrow> SessionEntry" where
  "assistantEntry s = MessageEntry ''e'' (Llm (AssistantM (assistantOf modelA Stop [Text s None])))"

definition toolResultEntry :: "string \<Rightarrow> SessionEntry" where
  "toolResultEntry s =
     MessageEntry ''e'' (Llm (ToolResultM ((resultRec ''a'')\<lparr>tr_content := [TextPart s None]\<rparr>)))"

definition imageUser :: AgentMessage where
  "imageUser = Llm (UserM \<lparr>um_content = ContentParts [ImagePart ''data'' ''image/png''], um_timestamp = 0\<rparr>)"

section \<open>Event stream\<close>

text \<open>The class \<open>EventStream\<close> as a state: the queue of events not yet consumed,
  the waiting consumers (each is the \<open>resolve\<close> of a promise the iterator awaits, named
  here by a number), the flag \<open>done\<close>, and the value \<open>finalResultPromise\<close> is resolved
  with, if it is. \<open>es_delivered\<close> records the calls of the waiting consumers' callbacks:
  \<open>(waiter, Some event)\<close> for \<open>{value: event, done: false}\<close> and \<open>(waiter, None)\<close> for
  \<open>{done: true}\<close>.\<close>

record ('t, 'r) EventStream =
  es_queue :: "'t list"
  es_waiting :: "nat list"
  es_done :: bool
  es_finalResult :: "'r option"
  es_delivered :: "(nat \<times> 't option) list"

definition newEventStream :: "('t, 'r) EventStream" where
  "newEventStream =
     \<lparr>es_queue = [], es_waiting = [], es_done = False, es_finalResult = None, es_delivered = []\<rparr>"

text \<open>Resolving a promise: only the first resolution takes effect.\<close>

definition resolveFinalResult :: "'r \<Rightarrow> 'r option \<Rightarrow> 'r option" where
  "resolveFinalResult r current = (case current of None \<Rightarrow> Some r | Some r0 \<Rightarrow> Some r0)"

definition push ::
  "('t \<Rightarrow> bool) \<Rightarrow> ('t \<Rightarrow> 'r) \<Rightarrow> ('t, 'r) EventStream \<Rightarrow> 't \<Rightarrow> ('t, 'r) EventStream" where
  "push isComplete extractResult s event =
     (if es_done s then s
      else
        (let s1 = (if isComplete event
                   then s\<lparr>es_done := True,
                          es_finalResult := resolveFinalResult (extractResult event) (es_finalResult s)\<rparr>
                   else s)
         in case es_waiting s1 of
              waiter # rest \<Rightarrow>
                s1\<lparr>es_waiting := rest, es_delivered := es_delivered s1 @ [(waiter, Some event)]\<rparr>
            | [] \<Rightarrow> s1\<lparr>es_queue := es_queue s1 @ [event]\<rparr>))"

definition endStream :: "('t, 'r) EventStream \<Rightarrow> 'r option \<Rightarrow> ('t, 'r) EventStream" where
  "endStream s r =
     s\<lparr>es_done := True,
       es_finalResult := (case r of Some v \<Rightarrow> resolveFinalResult v (es_finalResult s)
                          | None \<Rightarrow> es_finalResult s),
       es_waiting := [],
       es_delivered := es_delivered s @ map (\<lambda>waiter. (waiter, None)) (es_waiting s)\<rparr>"

text \<open>One round of the consumer's \<open>while (true)\<close>: it yields the head of the queue,
  returns, or suspends on a new promise whose \<open>resolve\<close> joins \<open>waiting\<close>.\<close>

datatype 't IteratorStep = Yield 't | Return | Suspend nat

definition consumerNext ::
  "('t, 'r) EventStream \<Rightarrow> nat \<Rightarrow> 't IteratorStep \<times> ('t, 'r) EventStream" where
  "consumerNext s waiter =
     (case es_queue s of
        event # rest \<Rightarrow> (Yield event, s\<lparr>es_queue := rest\<rparr>)
      | [] \<Rightarrow> (if es_done s then (Return, s)
               else (Suspend waiter, s\<lparr>es_waiting := es_waiting s @ [waiter]\<rparr>)))"

text \<open>The states a stream can be in: the new stream, and what the methods make of a
  state.\<close>

inductive reachable ::
  "('t \<Rightarrow> bool) \<Rightarrow> ('t \<Rightarrow> 'r) \<Rightarrow> ('t, 'r) EventStream \<Rightarrow> bool"
  for isComplete :: "'t \<Rightarrow> bool" and extractResult :: "'t \<Rightarrow> 'r" where
  reachable_new: "reachable isComplete extractResult newEventStream"
| reachable_push:
    "reachable isComplete extractResult s \<Longrightarrow>
     reachable isComplete extractResult (push isComplete extractResult s event)"
| reachable_end:
    "reachable isComplete extractResult s \<Longrightarrow>
     reachable isComplete extractResult (endStream s r)"
| reachable_next:
    "reachable isComplete extractResult s \<Longrightarrow>
     reachable isComplete extractResult (snd (consumerNext s waiter))"

text \<open>Example values: events are numbers, the event 0 ends the stream.\<close>

definition isDoneEvent :: "nat \<Rightarrow> bool" where
  "isDoneEvent n = (n = 0)"

definition resultOfEvent :: "nat \<Rightarrow> string" where
  "resultOfEvent n = ''final''"

section \<open>Events of an assistant response\<close>

text \<open>The message \<open>partial\<close> of a response that is being streamed. It is an
  \<open>AssistantMessage\<close> object that the receiver of the stream fills;
  its \<open>content\<close> is a JavaScript array, and an assignment past its end leaves holes,
  which read as \<open>undefined\<close>: the elements are optional here.\<close>

record PartialMessage =
  pm_content :: "AssistantBlock option list"
  pm_api :: string
  pm_provider :: string
  pm_model :: string
  pm_usage :: Usage
  pm_stopReason :: StopReason
  pm_errorMessage :: "string option"
  pm_timestamp :: nat

text \<open>Modelled from the spec: the declaration of \<open>AssistantMessageEvent\<close> is not among the
  sources; the constructors are the events of the spec's interface (section 6). In the
  sources every event holds the one object \<open>partial\<close>; here an event holds the state of
  that object when the event is made.\<close>

datatype AssistantMessageEvent =
    EvStart PartialMessage
  | EvTextStart nat PartialMessage
  | EvTextDelta nat string PartialMessage
  | EvTextEnd nat string PartialMessage
  | EvThinkingStart nat PartialMessage
  | EvThinkingDelta nat string PartialMessage
  | EvThinkingEnd nat string PartialMessage
  | EvToolcallStart nat PartialMessage
  | EvToolcallDelta nat string PartialMessage
  | EvToolcallEnd nat ToolCall PartialMessage
  | EvDone StopReason PartialMessage
  | EvError StopReason PartialMessage

section \<open>Agent loop: executing the tool calls of one assistant message\<close>

text \<open>\<open>AgentToolResult\<close>: the content for the model and the details for the
  interface.\<close>

record AgentToolResult =
  atr_content :: "ContentPart list"
  atr_details :: json

text \<open>\<open>AgentEvent\<close>, as \<open>types.ts\<close> of the agent package declares it. The fields it
  types \<open>any\<close> are given the types of what the loop puts there: \<open>args\<close> the arguments
  of the tool call, \<open>partialResult\<close> and \<open>result\<close> an \<open>AgentToolResult\<close>.\<close>

datatype AgentEvent =
    AgentStart
  | AgentEnd "AgentMessage list"
  | TurnStart
  | TurnEnd AgentMessage "ToolResultMessage list"
  | MessageStart AgentMessage
  | MessageUpdate AgentMessage AssistantMessageEvent
  | MessageEnd AgentMessage
  | ToolExecutionStart string string json
  | ToolExecutionUpdate string string json AgentToolResult
  | ToolExecutionEnd string string AgentToolResult bool

text \<open>\<open>AgentTool\<close>: of the fields it inherits from \<open>Tool\<close> the loop reads \<open>name\<close>;
  \<open>label\<close> is for the interface. What \<open>execute\<close> does is not the loop's: it is a function of the state of
  the world \<open>'w\<close> (which holds the abort signal), the id and the validated arguments, to
  the partial results it reports through \<open>onUpdate\<close>, its outcome (\<open>Inl\<close> the message
  of what it threw, \<open>Inr\<close> its result) and the world after it.\<close>

record 'w AgentTool =
  at_name :: string
  at_label :: string
  at_execute :: "'w \<Rightarrow> string \<Rightarrow> json \<Rightarrow> AgentToolResult list \<times> (string + AgentToolResult) \<times> 'w"

text \<open>The environment of the loop: the clock \<open>Date.now()\<close>, \<open>validateToolArguments\<close>
  (its outcome for a tool and a call: \<open>Inl\<close> the message of the error it throws, \<open>Inr\<close>
  the validated arguments), and \<open>getSteeringMessages\<close>, if configured.\<close>

record 'w LoopEnv =
  env_dateNow :: "'w \<Rightarrow> nat \<times> 'w"
  env_validateToolArguments :: "'w AgentTool \<Rightarrow> ToolCall \<Rightarrow> string + json"
  env_getSteeringMessages :: "('w \<Rightarrow> AgentMessage list \<times> 'w) option"

text \<open>The state the loop of \<open>executeToolCalls\<close> works on: the events pushed to the
  stream, the results so far, and the world.\<close>

record 'w ExecState =
  ex_stream :: "AgentEvent list"
  ex_results :: "ToolResultMessage list"
  ex_world :: 'w

definition skipToolCall ::
  "'w LoopEnv \<Rightarrow> ToolCall \<Rightarrow> AgentEvent list \<Rightarrow> 'w \<Rightarrow> ToolResultMessage \<times> AgentEvent list \<times> 'w" where
  "skipToolCall env toolCall stream w =
     (let result = \<lparr>atr_content = [TextPart ''Skipped due to queued user message.'' None],
                     atr_details = JObj []\<rparr>;
          stream1 = stream @ [ToolExecutionStart (tc_id toolCall) (tc_name toolCall) (tc_arguments toolCall)];
          stream2 = stream1 @ [ToolExecutionEnd (tc_id toolCall) (tc_name toolCall) result True];
          (now, w1) = env_dateNow env w;
          toolResultMessage =
            \<lparr>tr_toolCallId = tc_id toolCall, tr_toolName = tc_name toolCall,
             tr_content = atr_content result, tr_details = Some (JObj []),
             tr_isError = True, tr_timestamp = now\<rparr>;
          stream3 = stream2 @ [MessageStart (Llm (ToolResultM toolResultMessage))];
          stream4 = stream3 @ [MessageEnd (Llm (ToolResultM toolResultMessage))]
      in (toolResultMessage, stream4, w1))"

text \<open>\<open>for (const skipped of remainingCalls) results.push(skipToolCall(skipped, stream))\<close>\<close>

fun skipRemaining :: "'w LoopEnv \<Rightarrow> ToolCall list \<Rightarrow> 'w ExecState \<Rightarrow> 'w ExecState" where
  "skipRemaining env [] st = st"
| "skipRemaining env (skipped # remainingCalls) st =
     (let (toolResultMessage, stream1, w1) = skipToolCall env skipped (ex_stream st) (ex_world st)
      in skipRemaining env remainingCalls
           \<lparr>ex_stream = stream1, ex_results = ex_results st @ [toolResultMessage], ex_world = w1\<rparr>)"

text \<open>The body of the \<open>try\<close>: the tool is looked up, the arguments are validated, the
  tool is run. The result is the events the \<open>onUpdate\<close> callback pushed, the outcome and
  the world.\<close>

definition tryExecute ::
  "'w LoopEnv \<Rightarrow> 'w AgentTool list option \<Rightarrow> ToolCall \<Rightarrow> 'w \<Rightarrow>
   AgentEvent list \<times> (string + AgentToolResult) \<times> 'w" where
  "tryExecute env tools toolCall w =
     (case (case tools of None \<Rightarrow> None
            | Some ts \<Rightarrow> find (\<lambda>t. at_name t = tc_name toolCall) ts) of
        None \<Rightarrow> ([], Inl (''Tool '' @ tc_name toolCall @ '' not found''), w)
      | Some tool \<Rightarrow>
          (case env_validateToolArguments env tool toolCall of
             Inl message \<Rightarrow> ([], Inl message, w)
           | Inr validatedArgs \<Rightarrow>
               (let (partialResults, outcome, w1) = at_execute tool w (tc_id toolCall) validatedArgs
                in (map (ToolExecutionUpdate (tc_id toolCall) (tc_name toolCall) (tc_arguments toolCall))
                      partialResults,
                    outcome, w1))))"

text \<open>One round of the loop up to the steering check: the call is run and its result
  recorded.\<close>

definition executeOne ::
  "'w LoopEnv \<Rightarrow> 'w AgentTool list option \<Rightarrow> ToolCall \<Rightarrow> 'w ExecState \<Rightarrow> 'w ExecState" where
  "executeOne env tools toolCall st =
     (let stream1 = ex_stream st @
            [ToolExecutionStart (tc_id toolCall) (tc_name toolCall) (tc_arguments toolCall)];
          (updates, outcome, w1) = tryExecute env tools toolCall (ex_world st);
          (result, isError) =
            (case outcome of
               Inr r \<Rightarrow> (r, False)
             | Inl message \<Rightarrow> (\<lparr>atr_content = [TextPart message None], atr_details = JObj []\<rparr>, True));
          stream2 = stream1 @ updates @
            [ToolExecutionEnd (tc_id toolCall) (tc_name toolCall) result isError];
          (now, w2) = env_dateNow env w1;
          toolResultMessage =
            \<lparr>tr_toolCallId = tc_id toolCall, tr_toolName = tc_name toolCall,
             tr_content = atr_content result, tr_details = Some (atr_details result),
             tr_isError = isError, tr_timestamp = now\<rparr>;
          stream3 = stream2 @ [MessageStart (Llm (ToolResultM toolResultMessage)),
                               MessageEnd (Llm (ToolResultM toolResultMessage))]
      in \<lparr>ex_stream = stream3, ex_results = ex_results st @ [toolResultMessage], ex_world = w2\<rparr>)"

text \<open>The loop \<open>for (let index = 0; index < toolCalls.length; index++)\<close>, over the calls
  from \<open>index\<close> on; \<open>toolCalls.slice(index + 1)\<close> is the rest of the list.\<close>

fun executeLoop ::
  "'w LoopEnv \<Rightarrow> 'w AgentTool list option \<Rightarrow> ToolCall list \<Rightarrow> 'w ExecState \<Rightarrow>
   'w ExecState \<times> AgentMessage list option" where
  "executeLoop env tools [] st = (st, None)"
| "executeLoop env tools (toolCall # remainingCalls) st =
     (let st1 = executeOne env tools toolCall st
      in case env_getSteeringMessages env of
           None \<Rightarrow> executeLoop env tools remainingCalls st1
         | Some getSteeringMessages \<Rightarrow>
             (let (steering, w1) = getSteeringMessages (ex_world st1)
              in if steering \<noteq> []
                 then (skipRemaining env remainingCalls (st1\<lparr>ex_world := w1\<rparr>), Some steering)
                 else executeLoop env tools remainingCalls (st1\<lparr>ex_world := w1\<rparr>)))"

text \<open>\<open>executeToolCalls\<close>: the stream is the one passed in; the result is
  \<open>{toolResults, steeringMessages}\<close>, the stream and the world after the call.\<close>

definition executeToolCalls ::
  "'w LoopEnv \<Rightarrow> 'w AgentTool list option \<Rightarrow> AssistantMessage \<Rightarrow> AgentEvent list \<Rightarrow> 'w \<Rightarrow>
   'w ExecState \<times> AgentMessage list option" where
  "executeToolCalls env tools assistantMessage stream w =
     executeLoop env tools (toolCallsOf assistantMessage)
       \<lparr>ex_stream = stream, ex_results = [], ex_world = w\<rparr>"

text \<open>What the claim says of a skipped call: its result and its four events.\<close>

definition skippedResult :: "ToolCall \<Rightarrow> ToolResultMessage \<Rightarrow> bool" where
  "skippedResult toolCall r =
     (tr_toolCallId r = tc_id toolCall \<and> tr_toolName r = tc_name toolCall \<and>
      tr_content r = [TextPart ''Skipped due to queued user message.'' None] \<and> tr_isError r)"

definition skippedEvents :: "ToolCall \<Rightarrow> ToolResultMessage \<Rightarrow> AgentEvent list" where
  "skippedEvents toolCall r =
     [ToolExecutionStart (tc_id toolCall) (tc_name toolCall) (tc_arguments toolCall),
      ToolExecutionEnd (tc_id toolCall) (tc_name toolCall)
        \<lparr>atr_content = [TextPart ''Skipped due to queued user message.'' None], atr_details = JObj []\<rparr> True,
      MessageStart (Llm (ToolResultM r)),
      MessageEnd (Llm (ToolResultM r))]"

text \<open>Example values: a world that counts, a tool \<open>ls\<close> that adds 10 to it, and a
  steering source that answers with a user message once the world has reached 20.\<close>

definition lsTool :: "nat AgentTool" where
  "lsTool = \<lparr>at_name = ''ls'', at_label = ''List files'',
             at_execute = (\<lambda>w i args. ([], Inr \<lparr>atr_content = [TextPart ''a.txt'' None], atr_details = JObj []\<rparr>, w + 10))\<rparr>"

definition trustArguments :: "nat AgentTool \<Rightarrow> ToolCall \<Rightarrow> string + json" where
  "trustArguments tool toolCall = Inr (tc_arguments toolCall)"

definition steerAfterTwenty :: "nat \<Rightarrow> AgentMessage list \<times> nat" where
  "steerAfterTwenty w = (if w \<ge> 20 then [Llm (userOf ''wait'')] else [], w)"

definition exampleEnv :: "nat LoopEnv" where
  "exampleEnv = \<lparr>env_dateNow = tickClock, env_validateToolArguments = trustArguments,
                 env_getSteeringMessages = Some steerAfterTwenty\<rparr>"

definition threeCalls :: AssistantMessage where
  "threeCalls = assistantOf modelA ToolUse
     [ToolCallBlock (callOf ''a''), ToolCallBlock (callOf ''b''), ToolCallBlock (callOf ''c'')]"

definition startState :: "nat ExecState" where
  "startState = \<lparr>ex_stream = [], ex_results = [], ex_world = 0\<rparr>"

section \<open>Proxy codec\<close>

text \<open>\<open>ProxyAssistantMessageEvent\<close>, as the sources declare it.\<close>

datatype ProxyAssistantMessageEvent =
    PStart
  | PTextStart nat
  | PTextDelta nat string
  | PTextEnd nat "string option"
  | PThinkingStart nat
  | PThinkingDelta nat string
  | PThinkingEnd nat "string option"
  | PToolcallStart nat string string
  | PToolcallDelta nat string
  | PToolcallEnd nat
  | PDone StopReason Usage
  | PError StopReason "string option" Usage

text \<open>\<open>content[i]\<close> and \<open>content[i] = v\<close> on such an array.\<close>

definition arrayGet :: "'a option list \<Rightarrow> nat \<Rightarrow> 'a option" where
  "arrayGet xs i = (if i < length xs then xs ! i else None)"

definition arraySet :: "'a option list \<Rightarrow> nat \<Rightarrow> 'a \<Rightarrow> 'a option list" where
  "arraySet xs i v =
     (if i < length xs then xs[i := Some v]
      else xs @ replicate (i - length xs) None @ [Some v])"

datatype ProxyError =
    TextDeltaForNonText
  | TextEndForNonText
  | ThinkingDeltaForNonThinking
  | ThinkingEndForNonThinking
  | ToolcallDeltaForNonToolCall

text \<open>\<open>parseStreamingJson(s) || {}\<close>: a falsy value of the parser is replaced by the
  empty object. The parser itself is not among the sources and is a parameter.\<close>

fun jsFalsy :: "json \<Rightarrow> bool" where
  "jsFalsy JNull = True"
| "jsFalsy (JBool b) = (\<not> b)"
| "jsFalsy (JNum n) = (n = 0)"
| "jsFalsy (JStr s) = (s = [])"
| "jsFalsy j = False"

definition orEmptyObject :: "json \<Rightarrow> json" where
  "orEmptyObject j = (if jsFalsy j then JObj [] else j)"

text \<open>\<open>partialJson += delta\<close>: a missing \<open>partialJson\<close> reads as the string
  \<open>undefined\<close>.\<close>

definition appendPartialJson :: "string option \<Rightarrow> string \<Rightarrow> string" where
  "appendPartialJson partialJson delta =
     (case partialJson of None \<Rightarrow> ''undefined'' @ delta | Some s \<Rightarrow> s @ delta)"

fun processProxyEvent ::
  "(string \<Rightarrow> json) \<Rightarrow> ProxyAssistantMessageEvent \<Rightarrow> PartialMessage \<Rightarrow>
   ProxyError + (AssistantMessageEvent option \<times> PartialMessage)" where
  "processProxyEvent parseStreamingJson PStart partial = Inr (Some (EvStart partial), partial)"
| "processProxyEvent parseStreamingJson (PTextStart contentIndex) partial =
     (let partial1 = partial\<lparr>pm_content := arraySet (pm_content partial) contentIndex (Text [] None)\<rparr>
      in Inr (Some (EvTextStart contentIndex partial1), partial1))"
| "processProxyEvent parseStreamingJson (PTextDelta contentIndex delta) partial =
     (case arrayGet (pm_content partial) contentIndex of
        Some (Text text textSignature) \<Rightarrow>
          (let partial1 = partial\<lparr>pm_content :=
                 arraySet (pm_content partial) contentIndex (Text (text @ delta) textSignature)\<rparr>
           in Inr (Some (EvTextDelta contentIndex delta partial1), partial1))
      | _ \<Rightarrow> Inl TextDeltaForNonText)"
| "processProxyEvent parseStreamingJson (PTextEnd contentIndex contentSignature) partial =
     (case arrayGet (pm_content partial) contentIndex of
        Some (Text text textSignature) \<Rightarrow>
          (let partial1 = partial\<lparr>pm_content :=
                 arraySet (pm_content partial) contentIndex (Text text contentSignature)\<rparr>
           in Inr (Some (EvTextEnd contentIndex text partial1), partial1))
      | _ \<Rightarrow> Inl TextEndForNonText)"
| "processProxyEvent parseStreamingJson (PThinkingStart contentIndex) partial =
     (let partial1 = partial\<lparr>pm_content := arraySet (pm_content partial) contentIndex (Thinking [] None)\<rparr>
      in Inr (Some (EvThinkingStart contentIndex partial1), partial1))"
| "processProxyEvent parseStreamingJson (PThinkingDelta contentIndex delta) partial =
     (case arrayGet (pm_content partial) contentIndex of
        Some (Thinking thinking thinkingSignature) \<Rightarrow>
          (let partial1 = partial\<lparr>pm_content :=
                 arraySet (pm_content partial) contentIndex (Thinking (thinking @ delta) thinkingSignature)\<rparr>
           in Inr (Some (EvThinkingDelta contentIndex delta partial1), partial1))
      | _ \<Rightarrow> Inl ThinkingDeltaForNonThinking)"
| "processProxyEvent parseStreamingJson (PThinkingEnd contentIndex contentSignature) partial =
     (case arrayGet (pm_content partial) contentIndex of
        Some (Thinking thinking thinkingSignature) \<Rightarrow>
          (let partial1 = partial\<lparr>pm_content :=
                 arraySet (pm_content partial) contentIndex (Thinking thinking contentSignature)\<rparr>
           in Inr (Some (EvThinkingEnd contentIndex thinking partial1), partial1))
      | _ \<Rightarrow> Inl ThinkingEndForNonThinking)"
| "processProxyEvent parseStreamingJson (PToolcallStart contentIndex toolCallId toolName) partial =
     (let partial1 = partial\<lparr>pm_content := arraySet (pm_content partial) contentIndex
             (ToolCallBlock \<lparr>tc_id = toolCallId, tc_name = toolName, tc_arguments = JObj [],
                             tc_thoughtSignature = None, tc_partialJson = Some []\<rparr>)\<rparr>
      in Inr (Some (EvToolcallStart contentIndex partial1), partial1))"
| "processProxyEvent parseStreamingJson (PToolcallDelta contentIndex delta) partial =
     (case arrayGet (pm_content partial) contentIndex of
        Some (ToolCallBlock content) \<Rightarrow>
          (let partialJson = appendPartialJson (tc_partialJson content) delta;
               content1 = content\<lparr>tc_partialJson := Some partialJson,
                                  tc_arguments := orEmptyObject (parseStreamingJson partialJson)\<rparr>;
               partial1 = partial\<lparr>pm_content :=
                 arraySet (pm_content partial) contentIndex (ToolCallBlock content1)\<rparr>
           in Inr (Some (EvToolcallDelta contentIndex delta partial1), partial1))
      | _ \<Rightarrow> Inl ToolcallDeltaForNonToolCall)"
| "processProxyEvent parseStreamingJson (PToolcallEnd contentIndex) partial =
     (case arrayGet (pm_content partial) contentIndex of
        Some (ToolCallBlock content) \<Rightarrow>
          (let content1 = content\<lparr>tc_partialJson := None\<rparr>;
               partial1 = partial\<lparr>pm_content :=
                 arraySet (pm_content partial) contentIndex (ToolCallBlock content1)\<rparr>
           in Inr (Some (EvToolcallEnd contentIndex content1 partial1), partial1))
      | _ \<Rightarrow> Inr (None, partial))"
| "processProxyEvent parseStreamingJson (PDone reason usage) partial =
     (let partial1 = partial\<lparr>pm_stopReason := reason, pm_usage := usage\<rparr>
      in Inr (Some (EvDone reason partial1), partial1))"
| "processProxyEvent parseStreamingJson (PError reason errorMessage usage) partial =
     (let partial1 = partial\<lparr>pm_stopReason := reason, pm_errorMessage := errorMessage,
                              pm_usage := usage\<rparr>
      in Inr (Some (EvError reason partial1), partial1))"

text \<open>The message \<open>streamProxy\<close> starts from.\<close>

definition initialPartial :: "Model \<Rightarrow> nat \<Rightarrow> PartialMessage" where
  "initialPartial model now =
     \<lparr>pm_content = [], pm_api = m_api model, pm_provider = m_provider model,
      pm_model = m_id model,
      pm_usage = \<lparr>u_input = 0, u_output = 0, u_cacheRead = 0, u_cacheWrite = 0, u_totalTokens = 0,
                   u_cost = \<lparr>c_input = 0, c_output = 0, c_cacheRead = 0, c_cacheWrite = 0, c_total = 0\<rparr>\<rparr>,
      pm_stopReason = Stop, pm_errorMessage = None, pm_timestamp = now\<rparr>"

text \<open>The client's loop over the events of one response: each is processed in turn on
  the same \<open>partial\<close>; the events made are pushed to the stream. An error of
  \<open>processProxyEvent\<close> ends the loop.\<close>

fun processAll ::
  "(string \<Rightarrow> json) \<Rightarrow> ProxyAssistantMessageEvent list \<Rightarrow> PartialMessage \<Rightarrow>
   ProxyError + (AssistantMessageEvent list \<times> PartialMessage)" where
  "processAll parseStreamingJson [] partial = Inr ([], partial)"
| "processAll parseStreamingJson (proxyEvent # proxyEvents) partial =
     (case processProxyEvent parseStreamingJson proxyEvent partial of
        Inl err \<Rightarrow> Inl err
      | Inr (event, partial1) \<Rightarrow>
          (case processAll parseStreamingJson proxyEvents partial1 of
             Inl err \<Rightarrow> Inl err
           | Inr (events, partial2) \<Rightarrow>
               Inr ((case event of Some ev \<Rightarrow> [ev] | None \<Rightarrow> []) @ events, partial2)))"

text \<open>The message the client has rebuilt when the loop ends.\<close>

definition rebuild ::
  "(string \<Rightarrow> json) \<Rightarrow> ProxyAssistantMessageEvent list \<Rightarrow> PartialMessage \<Rightarrow>
   ProxyError + PartialMessage" where
  "rebuild parseStreamingJson proxyEvents partial =
     (case processAll parseStreamingJson proxyEvents partial of
        Inl err \<Rightarrow> Inl err
      | Inr (events, partial1) \<Rightarrow> Inr partial1)"

text \<open>
  Modelled from the spec: the server side of the proxy (the provider's event stream and
  the stripping of \<open>partial\<close>) is not among the sources. \<open>wireEvents\<close> is the sequence of
  stripped events that the server sends for a final assistant message, as the spec's
  wire format (sections 4.I and 6) gives it: \<open>start\<close>; for each content block in order,
  with its index, \<open>*_start\<close> (for a tool call with its id and name), one \<open>*_delta\<close> for
  each fragment, and \<open>*_end\<close> (for text and thinking with the block's signature); then
  \<open>done\<close> with the reason and the usage, or \<open>error\<close> with the reason, the error message
  and the usage. \<open>fragments\<close> gives the fragments of each block.
\<close>

fun blockEvents :: "nat \<Rightarrow> AssistantBlock \<Rightarrow> string list \<Rightarrow> ProxyAssistantMessageEvent list" where
  "blockEvents i (Text text textSignature) deltas =
     PTextStart i # map (PTextDelta i) deltas @ [PTextEnd i textSignature]"
| "blockEvents i (Thinking thinking thinkingSignature) deltas =
     PThinkingStart i # map (PThinkingDelta i) deltas @ [PThinkingEnd i thinkingSignature]"
| "blockEvents i (ToolCallBlock toolCall) deltas =
     PToolcallStart i (tc_id toolCall) (tc_name toolCall) # map (PToolcallDelta i) deltas @ [PToolcallEnd i]"

fun contentEvents ::
  "nat \<Rightarrow> AssistantBlock list \<Rightarrow> string list list \<Rightarrow> ProxyAssistantMessageEvent list" where
  "contentEvents i [] fragments = []"
| "contentEvents i (block # blocks) [] = blockEvents i block [] @ contentEvents (Suc i) blocks []"
| "contentEvents i (block # blocks) (deltas # fragments) =
     blockEvents i block deltas @ contentEvents (Suc i) blocks fragments"

definition terminalEvent :: "AssistantMessage \<Rightarrow> ProxyAssistantMessageEvent" where
  "terminalEvent message =
     (if am_stopReason message = Error \<or> am_stopReason message = Aborted
      then PError (am_stopReason message) (am_errorMessage message) (am_usage message)
      else PDone (am_stopReason message) (am_usage message))"

definition wireEvents :: "AssistantMessage \<Rightarrow> string list list \<Rightarrow> ProxyAssistantMessageEvent list" where
  "wireEvents message fragments =
     PStart # contentEvents 0 (am_content message) fragments @ [terminalEvent message]"

text \<open>
  Modelled from the spec: a conformant sequence. The fragments of a text or thinking
  block concatenate to its text; the arguments of a tool call are what the streaming
  parser makes of its concatenated fragments (the empty object when there is none), and
  the finished call has no \<open>partialJson\<close>.
\<close>

fun fragmentsFit :: "(string \<Rightarrow> json) \<Rightarrow> AssistantBlock \<Rightarrow> string list \<Rightarrow> bool" where
  "fragmentsFit parseStreamingJson (Text text textSignature) deltas = (concat deltas = text)"
| "fragmentsFit parseStreamingJson (Thinking thinking thinkingSignature) deltas = (concat deltas = thinking)"
| "fragmentsFit parseStreamingJson (ToolCallBlock toolCall) deltas =
     (tc_partialJson toolCall = None \<and>
      tc_arguments toolCall =
        (if deltas = [] then JObj [] else orEmptyObject (parseStreamingJson (concat deltas))))"

definition conformant :: "(string \<Rightarrow> json) \<Rightarrow> AssistantMessage \<Rightarrow> string list list \<Rightarrow> bool" where
  "conformant parseStreamingJson message fragments =
     (length fragments = length (am_content message) \<and>
      list_all2 (fragmentsFit parseStreamingJson) (am_content message) fragments)"

fun noThoughtSignature :: "AssistantBlock \<Rightarrow> bool" where
  "noThoughtSignature (ToolCallBlock toolCall) = (tc_thoughtSignature toolCall = None)"
| "noThoughtSignature block = True"

text \<open>The content of the rebuilt message, if the loop ends without an error.\<close>

definition rebuiltContent ::
  "(string \<Rightarrow> json) \<Rightarrow> ProxyAssistantMessageEvent list \<Rightarrow> PartialMessage \<Rightarrow>
   AssistantBlock option list option" where
  "rebuiltContent parseStreamingJson proxyEvents partial =
     (case rebuild parseStreamingJson proxyEvents partial of
        Inl err \<Rightarrow> None
      | Inr partial1 \<Rightarrow> Some (pm_content partial1))"

text \<open>Example values: a parser that knows one text, a tool call with a thought
  signature and two messages.\<close>

definition exampleParser :: "string \<Rightarrow> json" where
  "exampleParser s = (if s = ''{path:1}'' then JObj [(''path'', JNum 1)] else JObj [])"

definition signedCall :: ToolCall where
  "signedCall = \<lparr>tc_id = ''t1'', tc_name = ''ls'', tc_arguments = JObj [],
                 tc_thoughtSignature = Some ''sig'', tc_partialJson = None\<rparr>"

definition pathCall :: ToolCall where
  "pathCall = \<lparr>tc_id = ''t1'', tc_name = ''ls'', tc_arguments = JObj [(''path'', JNum 1)],
               tc_thoughtSignature = None, tc_partialJson = None\<rparr>"

definition signedMessage :: AssistantMessage where
  "signedMessage = assistantOf modelB ToolUse [ToolCallBlock signedCall]"

definition helloMessage :: AssistantMessage where
  "helloMessage = assistantOf modelB ToolUse [Text ''hello'' (Some ''s''), ToolCallBlock pathCall]"

definition helloFragments :: "string list list" where
  "helloFragments = [[''he'', ''llo''], [''{pa'', ''th:1}'']]"

section \<open>Properties of the message transform\<close>

subsection \<open>The second pass never pushes an errored assistant message\<close>

lemma insertSynthetic_toolResults:
  "m \<in> set (fst (insertSynthetic d e w tcs)) \<Longrightarrow> \<exists>r. m = ToolResultM r"
  by (induction tcs arbitrary: w) (auto simp: syntheticToolResult_def case_prod_beta Let_def split: if_splits)

lemma flushPending_noErrored:
  "noErrored (result st) \<Longrightarrow> noErrored (result (flushPending d st))"
  by (auto simp: flushPending_def noErrored_def case_prod_beta Let_def dest: insertSynthetic_toolResults)

lemma repairStep_noErrored:
  assumes "noErrored (result st)"
  shows "noErrored (result (repairStep d st m))"
proof -
  have fl: "noErrored (result (flushPending d st))"
    using assms by (rule flushPending_noErrored)
  show ?thesis
  proof (cases m)
    case (UserM u)
    then show ?thesis using fl by (simp add: noErrored_def Let_def)
  next
    case (AssistantM a)
    then show ?thesis using fl by (simp add: noErrored_def Let_def)
  next
    case (ToolResultM r)
    then show ?thesis using assms by (simp add: noErrored_def)
  qed
qed

lemma foldl_repairStep_noErrored:
  "noErrored (result st) \<Longrightarrow> noErrored (result (foldl (repairStep d) st ms))"
  by (induction ms arbitrary: st) (auto intro: repairStep_noErrored)

text \<open>
  Claim C2 (drop-errored). For every message history, target model, normalizer and clock,
  no assistant message in the output of \<open>transformMessages\<close> has stopReason \<open>error\<close>
  or \<open>aborted\<close>.
\<close>

theorem transformMessages_drops_errored:
  "\<forall>m \<in> set (transformMessages dateNow w messages model normalizeToolCallId).
     \<forall>a. m = AssistantM a \<longrightarrow> am_stopReason a \<noteq> Error \<and> am_stopReason a \<noteq> Aborted"
  using foldl_repairStep_noErrored
    [of "\<lparr>result = [], pendingToolCalls = [], existingToolResultIds = {}, world = w\<rparr>" dateNow]
  by (simp add: transformMessages_def secondPass_def noErrored_def isErrored_def)

theorem transformMessages_drops_errored_witness:
  "transformMessages tickClock 0
     [AssistantM (assistantOf modelA Error [Text ''x'' None]),
      AssistantM (assistantOf modelA Stop [Text ''y'' None])] modelA None
   = [AssistantM (assistantOf modelA Stop [Text ''y'' None])]
   \<and> am_stopReason (assistantOf modelA Stop [Text ''y'' None]) \<noteq> Error
   \<and> am_stopReason (assistantOf modelA Stop [Text ''y'' None]) \<noteq> Aborted"
  using transformMessages_drops_errored
    [of tickClock 0
        "[AssistantM (assistantOf modelA Error [Text ''x'' None]),
          AssistantM (assistantOf modelA Stop [Text ''y'' None])]" modelA None]
  by (simp add: transformMessages_def secondPass_def flushPending_def isErrored_def
      toolCallsOf_def isSameModel_def assistantOf_def modelA_def)

subsection \<open>The second loop as a list function\<close>

lemma flushPending_sel:
  "result (flushPending d st) = result st @ fst (insertSynthetic d (existingToolResultIds st) (world st) (pendingToolCalls st))"
  "pendingToolCalls (flushPending d st) = []"
  "existingToolResultIds (flushPending d st) = (if pendingToolCalls st \<noteq> [] then {} else existingToolResultIds st)"
  "world (flushPending d st) = snd (insertSynthetic d (existingToolResultIds st) (world st) (pendingToolCalls st))"
  by (auto simp: flushPending_def case_prod_beta)

lemma foldl_repairStep_emit:
  "result (foldl (repairStep d) st ms) =
   result st @ emit d (pendingToolCalls st) (existingToolResultIds st) (world st) ms"
proof (induction ms arbitrary: st)
  case Nil
  then show ?case by simp
next
  case (Cons m ms)
  show ?case
  proof (cases m)
    case (UserM u)
    then show ?thesis by (simp add: Cons.IH Let_def flushPending_sel)
  next
    case (AssistantM a)
    then show ?thesis by (simp add: Cons.IH Let_def flushPending_sel)
  next
    case (ToolResultM r)
    then show ?thesis by (simp add: Cons.IH)
  qed
qed

lemma transformMessages_emit:
  "transformMessages d w H M n = emit d [] {} w (firstPass M n Map.empty H)"
  by (simp add: transformMessages_def secondPass_def foldl_repairStep_emit)

lemma resultIds_simps [simp]:
  "resultIds [] = {}"
  "resultIds (m # ms) = resultIdOf m \<union> resultIds ms"
  "resultIds (xs @ ys) = resultIds xs \<union> resultIds ys"
  by (auto simp: resultIds_def)

lemma insertSynthetic_isResult:
  "list_all isResult (fst (insertSynthetic d e w tcs))"
  by (induction tcs arbitrary: w) (auto simp: syntheticToolResult_def case_prod_beta Let_def)

lemma insertSynthetic_isSynthetic:
  "list_all isSyntheticResult (fst (insertSynthetic d e w tcs))"
  by (induction tcs arbitrary: w) (auto simp: syntheticToolResult_def case_prod_beta Let_def)

lemma insertSynthetic_ids:
  "resultIds (fst (insertSynthetic d e w tcs)) = {i \<in> tc_id ` set tcs. i \<notin> e}"
  by (induction tcs arbitrary: w) (auto simp: syntheticToolResult_def case_prod_beta Let_def)


lemma list_ex_isTurn_results_append:
  "list_all isResult xs \<Longrightarrow> list_ex isTurn (xs @ ys) = list_ex isTurn ys"
proof (induction xs)
  case Nil
  then show ?case by simp
next
  case (Cons x xs)
  then show ?case by (cases x) auto
qed


lemma emit_results_append:
  "list_all isResult xs \<Longrightarrow> emit d p e w (xs @ ys) = xs @ emit d p (e \<union> resultIds xs) w ys"
proof (induction xs arbitrary: e)
  case Nil
  then show ?case by simp
next
  case (Cons x xs)
  then show ?case by (cases x) (auto simp: Un_insert_left insert_commute)
qed

lemma insertSynthetic_all_existing:
  "tc_id ` set p \<subseteq> e \<Longrightarrow> insertSynthetic d e w p = ([], w)"
  by (induction p) auto

lemma emit_members:
  "m \<in> set (emit d p e w ms) \<Longrightarrow> m \<in> set ms \<or> isSyntheticResult m"
proof (induction ms arbitrary: p e w)
  case Nil
  then show ?case by simp
next
  case (Cons x xs)
  have syn: "m \<in> set (fst (insertSynthetic d e w p)) \<Longrightarrow> isSyntheticResult m"
    using insertSynthetic_isSynthetic[of d e w p] by (simp add: list_all_iff)
  show ?case
  proof (cases x)
    case (UserM u)
    then show ?thesis using Cons.prems Cons.IH syn by auto
  next
    case (AssistantM a)
    then show ?thesis using Cons.prems Cons.IH syn by (auto split: if_splits)
  next
    case (ToolResultM r)
    then show ?thesis using Cons.prems Cons.IH by auto
  qed
qed


lemmas eval_defs = transformMessages_def secondPass_def flushPending_def isErrored_def
  toolCallsOf_def isSameModel_def assistantOf_def modelA_def modelB_def callOf_def userOf_def
  resultOf_def resultRec_def tickClock_def syntheticToolResult_def truthy_def Let_def zeroUsage_def

subsection \<open>Orphan closure\<close>






subsection \<open>Applying the transform twice\<close>

lemma emit_idempotent:
  "(p' = p \<and> e \<subseteq> e') \<or> (p = [] \<and> tc_id ` set p' \<subseteq> e') \<Longrightarrow>
   emit d' p' e' w' (emit d p e w ms) = emit d p e w ms"
proof (induction ms arbitrary: p e w p' e' w')
  case Nil
  then show ?case by simp
next
  case (Cons m ms)
  let ?syn = "fst (insertSynthetic d e w p)"
  have covered: "tc_id ` set p' \<subseteq> e' \<union> resultIds ?syn"
    using Cons.prems by (auto simp: insertSynthetic_ids)
  have noSyn: "insertSynthetic d' (e' \<union> resultIds ?syn) w' p' = ([], w')"
    using covered by (rule insertSynthetic_all_existing)
  show ?case
  proof (cases m)
    case (UserM u)
    then show ?thesis
      by (simp add: emit_results_append insertSynthetic_isResult noSyn Cons.IH)
  next
    case (AssistantM a)
    show ?thesis
    proof (cases "isErrored a")
      case True
      have "emit d' p' (e' \<union> resultIds ?syn) w' (emit d [] (if p \<noteq> [] then {} else e) (snd (insertSynthetic d e w p)) ms)
            = emit d [] (if p \<noteq> [] then {} else e) (snd (insertSynthetic d e w p)) ms"
        using covered by (intro Cons.IH) simp
      then show ?thesis using AssistantM True
        by (simp add: emit_results_append insertSynthetic_isResult)
    next
      case False
      then show ?thesis using AssistantM
        by (simp add: emit_results_append insertSynthetic_isResult noSyn Cons.IH)
    qed
  next
    case (ToolResultM r)
    have "emit d' p' (insert (tr_toolCallId r) e') w' (emit d p (insert (tr_toolCallId r) e) w ms)
          = emit d p (insert (tr_toolCallId r) e) w ms"
      using Cons.prems by (intro Cons.IH) auto
    then show ?thesis using ToolResultM by simp
  qed
qed

lemma transformBlock_stable:
  assumes "idempotentNormalizer M n" and "b' \<in> set (fst (transformBlock M n a same m b))"
  shows "stableBlock M n same b'"
proof (cases b)
  case (Text t sg)
  then show ?thesis using assms(2) by (auto simp: stableBlock_def split: if_splits)
next
  case (Thinking t sg)
  then show ?thesis using assms(2) by (auto simp: stableBlock_def split: if_splits)
next
  case (ToolCallBlock tc)
  show ?thesis
  proof (cases n)
    case None
    then show ?thesis using assms(2) ToolCallBlock
      by (auto simp: stableBlock_def truthy_def Let_def split: if_splits)
  next
    case (Some f)
    have idem: "\<And>i s s'. f (f i M s) M s' = f i M s"
      using assms(1) Some by (simp add: idempotentNormalizer_def)
    have fixed: "f (tc_id tc) M a = tc_id tc \<Longrightarrow> f (tc_id tc) M s' = tc_id tc" for s'
      using idem[of "tc_id tc" a s'] by simp
    show ?thesis using assms(2) ToolCallBlock Some idem fixed
      by (auto simp: stableBlock_def truthy_def Let_def split: if_splits)
  qed
qed

lemma transformContent_blocks_stable:
  assumes "idempotentNormalizer M n"
  shows "b' \<in> set (fst (transformContent M n a same m bs)) \<Longrightarrow> stableBlock M n same b'"
proof (induction bs arbitrary: m)
  case Nil
  then show ?case by simp
next
  case (Cons b bs)
  then show ?case using transformBlock_stable[OF assms, of b' a same m b]
    by (auto simp: case_prod_beta Let_def)
qed

lemma transformContent_stable_id:
  "\<forall>b \<in> set bs. stableBlock M n same b \<Longrightarrow>
   transformContent M n a same Map.empty bs = (bs, Map.empty)"
  by (induction bs) (auto simp: stableBlock_def)

lemma isSameModel_content [simp]:
  "isSameModel (a\<lparr>am_content := c\<rparr>) M = isSameModel a M"
  by (simp add: isSameModel_def)

lemma transformMessage_stable:
  assumes "idempotentNormalizer M n"
  shows "stableMessage M n (fst (transformMessage M n m x))"
proof (cases x)
  case (UserM u)
  then show ?thesis by (simp add: stableMessage_def)
next
  case (ToolResultM r)
  then show ?thesis by (auto simp: stableMessage_def split: option.splits)
next
  case (AssistantM a)
  let ?c = "fst (transformContent M n a (isSameModel a M) m (am_content a))"
  have "transformContent M n (a\<lparr>am_content := ?c\<rparr>) (isSameModel a M) Map.empty ?c = (?c, Map.empty)"
    using transformContent_blocks_stable[OF assms]
    by (intro transformContent_stable_id) blast
  then show ?thesis using AssistantM
    by (simp add: stableMessage_def case_prod_beta Let_def)
qed

lemma firstPass_members_stable:
  assumes "idempotentNormalizer M n"
  shows "x \<in> set (firstPass M n m H) \<Longrightarrow> stableMessage M n x"
proof (induction H arbitrary: m)
  case Nil
  then show ?case by simp
next
  case (Cons h H)
  then show ?case using transformMessage_stable[OF assms, of m h]
    by (auto simp: case_prod_beta Let_def)
qed

lemma firstPass_stable_id:
  "\<forall>x \<in> set xs. stableMessage M n x \<Longrightarrow> firstPass M n Map.empty xs = xs"
  by (induction xs) (auto simp: stableMessage_def)

lemma isSyntheticResult_stable:
  "isSyntheticResult x \<Longrightarrow> stableMessage M n x"
  by (cases x) (auto simp: stableMessage_def)

text \<open>
  Claim C5 (transform idempotence), as stated: for every deterministic normalizer, a
  second application of \<open>transformMessages\<close> with the same target model changes
  nothing. The statement fails for a normalizer that changes its own values: the
  second application normalizes the ids again. Here the normalizer appends a character.
\<close>

theorem transform_twice_differs_for_appending_normalizer:
  "transformMessages tickClock 0
     (transformMessages tickClock 0
        [AssistantM (assistantOf modelB ToolUse [ToolCallBlock (callOf ''a'')])] modelA (Some appendX))
     modelA (Some appendX)
   \<noteq> transformMessages tickClock 0
        [AssistantM (assistantOf modelB ToolUse [ToolCallBlock (callOf ''a'')])] modelA (Some appendX)"
  by (simp add: eval_defs appendX_def)

text \<open>
  Claim C5, amended: when no normalizer is given, or the normalizer maps each of its
  values to itself whatever the source message, applying \<open>transformMessages\<close> with the
  same target model and normalizer to the output of a first application returns that
  output, whatever the clocks of the two applications.
\<close>

theorem transform_idempotent_for_idempotent_normalizer:
  assumes "idempotentNormalizer M n"
  shows "transformMessages d' w' (transformMessages d w H M n) M n = transformMessages d w H M n"
proof -
  let ?out = "transformMessages d w H M n"
  have "\<forall>x \<in> set ?out. stableMessage M n x"
    using emit_members[of _ d "[]" "{}" w "firstPass M n Map.empty H"]
      firstPass_members_stable[OF assms] isSyntheticResult_stable
    unfolding transformMessages_emit by blast
  then have "firstPass M n Map.empty ?out = ?out"
    by (rule firstPass_stable_id)
  then have "transformMessages d' w' ?out M n = emit d' [] {} w' ?out"
    by (simp add: transformMessages_emit[of d' w' ?out])
  also have "\<dots> = ?out"
    unfolding transformMessages_emit[of d w H] by (rule emit_idempotent) simp
  finally show ?thesis .
qed

theorem transform_idempotent_for_idempotent_normalizer_witness:
  "idempotentNormalizer modelA (Some firstTwo) \<and>
   transformMessages tickClock 5
     (transformMessages tickClock 0
        [AssistantM (assistantOf modelB ToolUse [Thinking ''hm'' (Some ''sig''), ToolCallBlock (callOf ''abc'')]),
         resultOf ''abc'', userOf ''hi''] modelA (Some firstTwo))
     modelA (Some firstTwo)
   = [AssistantM (assistantOf modelB ToolUse [Text ''hm'' None, ToolCallBlock (callOf ''ab'')]),
         resultOf ''ab'', userOf ''hi'']"
proof -
  have h: "idempotentNormalizer modelA (Some firstTwo)"
    by (simp add: idempotentNormalizer_def firstTwo_def)
  show ?thesis using h transform_idempotent_for_idempotent_normalizer[OF h, of tickClock 5 tickClock 0
     "[AssistantM (assistantOf modelB ToolUse [Thinking ''hm'' (Some ''sig''), ToolCallBlock (callOf ''abc'')]),
         resultOf ''abc'', userOf ''hi'']"]
    by (simp add: eval_defs firstTwo_def isWhiteSpace_def trimIsEmpty_def)
qed

subsection \<open>The assistant message that ends the history\<close>






lemma length_firstPass [simp]: "length (firstPass M n m xs) = length xs"
  by (induction xs arbitrary: m) (auto simp: case_prod_beta Let_def)






section \<open>Properties of the compaction functions\<close>

subsection \<open>Token estimate\<close>

lemma sum_list_resultBlockChars:
  "sum_list (map resultBlockChars ps) = sum_list (map partTextChars ps) + 4800 * length (filter isImage ps)"
proof (induction ps)
  case Nil
  then show ?case by simp
next
  case (Cons p ps)
  then show ?case by (cases p) auto
qed

lemma sum_list_userBlockChars:
  "sum_list (map userBlockChars ps) = sum_list (map partTextChars ps)"
proof (induction ps)
  case Nil
  then show ?case by simp
next
  case (Cons p ps)
  then show ?case by (cases p) auto
qed

lemma ceilDiv4_images: "ceilDiv4 (n + 4800 * k) = ceilDiv4 n + 1200 * k"
  by (simp add: ceilDiv4_def)

text \<open>The estimate of the code is the one of the specification for every message but a
  user message with an image block.\<close>

lemma estimateTokens_is_spec_estimate:
  assumes "specImages message = 0 \<or> (\<forall>u. message \<noteq> Llm (UserM u))"
  shows "estimateTokens stringify message = specEstimateTokens stringify message"
proof (cases message)
  case (Llm m)
  show ?thesis
  proof (cases m)
    case (UserM u)
    then show ?thesis using Llm assms
      by (cases "um_content u") (auto simp: specEstimateTokens_def sum_list_userBlockChars)
  next
    case (AssistantM a)
    then show ?thesis using Llm by (simp add: specEstimateTokens_def)
  next
    case (ToolResultM r)
    then show ?thesis using Llm
      by (simp add: specEstimateTokens_def sum_list_resultBlockChars ceilDiv4_images)
  qed
next
  case (CustomM c)
  then show ?thesis
    by (cases "cm_content c") (auto simp: specEstimateTokens_def sum_list_resultBlockChars ceilDiv4_images)
qed (simp_all add: specEstimateTokens_def)

text \<open>
  Claim C6 (token estimate): \<open>estimateTokens\<close> returns the characters of the textual
  fields divided by four, rounded up, plus 1200 tokens for each image block, whatever
  the role. For a user message made of one image block the code returns 0, where the
  estimate of the claim is 1200: the \<open>user\<close> case counts text blocks only, the
  \<open>custom\<close>/\<open>toolResult\<close> case beside it counts 4800 characters for an image.
\<close>

theorem estimateTokens_ignores_user_image:
  "estimateTokens noStringify imageUser = 0 \<and> specEstimateTokens noStringify imageUser = 1200"
  by code_simp

subsection \<open>Cut point\<close>

lemma cutPointPushes_legal:
  "cutPointPushes entry i = (if legalCutPoint entry then [i] else [])"
  by (cases entry) auto

lemma findValidCutPointsLoop_Inr:
  "findValidCutPointsLoop entries idxs acc = Inr cps \<Longrightarrow>
   cps = acc @ filter (\<lambda>i. legalCutPoint (entries ! i)) idxs \<and> (\<forall>i \<in> set idxs. i < length entries)"
proof (induction idxs arbitrary: acc)
  case Nil
  then show ?case by simp
next
  case (Cons i idxs)
  have i: "i < length entries"
    using Cons.prems by (auto simp: entryAt_def split: if_splits)
  then have "findValidCutPointsLoop entries idxs (acc @ cutPointPushes (entries ! i) i) = Inr cps"
    using Cons.prems by (simp add: entryAt_def)
  from Cons.IH[OF this] show ?case using i
    by (simp add: cutPointPushes_legal)
qed

lemma findValidCutPointsLoop_total:
  "\<forall>i \<in> set idxs. i < length entries \<Longrightarrow> \<exists>cps. findValidCutPointsLoop entries idxs acc = Inr cps"
  by (induction idxs arbitrary: acc) (auto simp: entryAt_def)

lemma findValidCutPoints_Inr:
  assumes "findValidCutPoints entries s e = Inr cps"
  shows "cps = filter (\<lambda>i. legalCutPoint (entries ! i)) [s..<e]"
    and "s < e \<Longrightarrow> e \<le> length entries"
proof -
  have *: "cps = [] @ filter (\<lambda>i. legalCutPoint (entries ! i)) [s..<e] \<and> (\<forall>i \<in> set [s..<e]. i < length entries)"
    using assms unfolding findValidCutPoints_def by (rule findValidCutPointsLoop_Inr)
  then show "cps = filter (\<lambda>i. legalCutPoint (entries ! i)) [s..<e]" by simp
  show "e \<le> length entries" if "s < e"
  proof -
    have "e - 1 \<in> set [s..<e]" using that by auto
    then have "e - 1 < length entries" using * by blast
    then show ?thesis using that by simp
  qed
qed

lemma closestCutPoint_mem:
  "cps \<noteq> [] \<Longrightarrow> closestCutPoint cps i \<in> set cps"
  by (auto simp: closestCutPoint_def find_Some_iff split: option.splits)

lemma includeMetadata_Inr:
  "includeMetadata entries s c = Inr c' \<Longrightarrow>
   c' = c \<or> (s \<le> c' \<and> c' < c \<and> c' < length entries \<and> metadataEntry (entries ! c'))"
proof (induction c)
  case 0
  then show ?case by simp
next
  case (Suc c)
  show ?case
  proof (cases "Suc c > s")
    case False
    then show ?thesis using Suc.prems by simp
  next
    case True
    show ?thesis
    proof (cases "c < length entries")
      case False
      then show ?thesis using Suc.prems True by (simp add: entryAt_def)
    next
      case inRange: True
      show ?thesis
      proof (cases "isCompactionEntry (entries ! c) \<or> isMessageEntry (entries ! c)")
        case True
        then show ?thesis using Suc.prems \<open>Suc c > s\<close> inRange
          by (auto simp: entryAt_def split: if_splits)
      next
        case False
        then have rec: "includeMetadata entries s c = Inr c'"
          using Suc.prems \<open>Suc c > s\<close> inRange by (simp add: entryAt_def)
        have meta: "metadataEntry (entries ! c)" using False by (simp add: metadataEntry_def)
        from Suc.IH[OF rec] show ?thesis using meta inRange \<open>Suc c > s\<close> by auto
      qed
    qed
  qed
qed

lemma includeMetadata_run:
  "includeMetadata entries s c = Inr r \<Longrightarrow>
   r \<le> c \<and> (r < c \<longrightarrow> s \<le> r) \<and>
   (\<forall>j. r \<le> j \<and> j < c \<longrightarrow> j < length entries \<and> metadataEntry (entries ! j)) \<and>
   (s < r \<longrightarrow> r - 1 < length entries \<and> \<not> metadataEntry (entries ! (r - 1)))"
proof (induction c)
  case 0
  then show ?case by simp
next
  case (Suc c)
  show ?case
  proof (cases "Suc c > s")
    case False
    then have "r = Suc c" using Suc.prems by simp
    then show ?thesis using False by auto
  next
    case True
    show ?thesis
    proof (cases "c < length entries")
      case False
      then show ?thesis using Suc.prems True by (simp add: entryAt_def)
    next
      case inRange: True
      show ?thesis
      proof (cases "isCompactionEntry (entries ! c) \<or> isMessageEntry (entries ! c)")
        case True
        then have "r = Suc c"
          using Suc.prems \<open>Suc c > s\<close> inRange by (auto simp: entryAt_def split: if_splits)
        then show ?thesis using True inRange by (auto simp: metadataEntry_def)
      next
        case False
        then have rec: "includeMetadata entries s c = Inr r"
          using Suc.prems \<open>Suc c > s\<close> inRange by (simp add: entryAt_def)
        have meta: "metadataEntry (entries ! c)" using False by (simp add: metadataEntry_def)
        have "j < Suc c \<Longrightarrow> j < c \<or> j = c" for j by auto
        then show ?thesis using Suc.IH[OF rec] meta inRange \<open>Suc c > s\<close>
          by (auto simp: less_Suc_eq)
      qed
    qed
  qed
qed

lemma includeMetadata_total:
  "c \<le> length entries \<Longrightarrow> \<exists>c'. includeMetadata entries s c = Inr c'"
  by (induction c) (auto simp: entryAt_def)

lemma walkBack_total:
  "\<forall>i \<in> set idxs. i < length entries \<Longrightarrow> \<exists>r. walkBack S entries k idxs acc = Inr r"
proof (induction idxs arbitrary: acc)
  case Nil
  then show ?case by simp
next
  case (Cons i idxs)
  then show ?case by (cases "entries ! i") (auto simp: entryAt_def Let_def)
qed

lemma findTurnStartLoop_total:
  "\<forall>i \<in> set idxs. i < length entries \<Longrightarrow> \<exists>r. findTurnStartLoop entries idxs = Inr r"
  by (induction idxs) (auto simp: entryAt_def)

lemma findCutPoint_Inr_cases:
  assumes "findCutPoint S entries s e k = Inr r"
  shows "(filter (\<lambda>i. legalCutPoint (entries ! i)) [s..<e] = [] \<and> firstKeptEntryIndex r = s) \<or>
         (\<exists>c0 \<in> set (filter (\<lambda>i. legalCutPoint (entries ! i)) [s..<e]).
            includeMetadata entries s c0 = Inr (firstKeptEntryIndex r) \<and> e \<le> length entries)"
proof -
  obtain cps where cps: "findValidCutPoints entries s e = Inr cps"
    using assms by (auto simp: findCutPoint_def split: sum.splits)
  note f = findValidCutPoints_Inr[OF cps]
  show ?thesis
  proof (cases "cps = []")
    case True
    then show ?thesis using assms cps f(1) by (auto simp: findCutPoint_def)
  next
    case False
    then have "s < e" using f(1) by (cases "s < e") auto
    then have le: "e \<le> length entries" using f(2) by simp
    obtain reached where reached: "walkBack S entries k (rev [s..<e]) 0 = Inr reached"
      using assms cps False by (auto simp: findCutPoint_def split: sum.splits)
    define c0 where "c0 = (case reached of None \<Rightarrow> hd cps | Some i \<Rightarrow> closestCutPoint cps i)"
    have c0: "c0 \<in> set cps"
      using False closestCutPoint_mem[OF False] by (auto simp: c0_def split: option.splits)
    have "includeMetadata entries s c0 = Inr (firstKeptEntryIndex r)"
      using assms cps False reached unfolding c0_def
      by (auto simp: findCutPoint_def Let_def split: sum.splits if_splits)
    then show ?thesis using c0 f(1) le by auto
  qed
qed

lemma label_example_eval:
  "findCutPoint noStringify [userEntry ''hello'', LabelEntry ''l'', assistantEntry ''hello''] 0 3 1
   = Inr \<lparr>firstKeptEntryIndex = 1, turnStartIndex = 0, isSplitTurn = True\<rparr>"
  by code_simp

lemma label_entries_eval:
  "legalCutPoint ([userEntry ''hello'', LabelEntry ''l'', assistantEntry ''hello''] ! 2)"
  "metadataEntry ([userEntry ''hello'', LabelEntry ''l'', assistantEntry ''hello''] ! 1)"
  "\<not> metadataEntry ([userEntry ''hello'', LabelEntry ''l'', assistantEntry ''hello''] ! 0)"
  "\<not> isToolResultEntry ([userEntry ''hello'', LabelEntry ''l'', assistantEntry ''hello''] ! 1)"
  by code_simp+

text \<open>
  Claim C3 (cut-point legality), as stated: \<open>firstKeptEntryIndex\<close> is the start index or
  the index of an entry of a legal cut-point kind. The statement fails when a metadata
  entry stands before the chosen cut point: the leftward expansion moves the index onto
  it. Here the entry at index 1 is a label.
\<close>

theorem cut_point_can_be_metadata_entry:
  "findCutPoint noStringify [userEntry ''hello'', LabelEntry ''l'', assistantEntry ''hello''] 0 3 1
   = Inr \<lparr>firstKeptEntryIndex = 1, turnStartIndex = 0, isSplitTurn = True\<rparr> \<and>
   (1::nat) \<noteq> 0 \<and>
   \<not> legalCutPoint ([userEntry ''hello'', LabelEntry ''l'', assistantEntry ''hello''] ! 1)"
  using label_example_eval by simp

text \<open>
  Claim C3, amended: for every entry list, start index, end index within the list and
  budget, \<open>findCutPoint\<close> returns a result; and for every result that it returns,
  either the range holds no valid cut point and \<open>firstKeptEntryIndex\<close> is the start
  index, or \<open>firstKeptEntryIndex\<close> is an index of the range at or before a valid cut
  point \<open>c\<close> of the range such that every entry from it up to \<open>c\<close> is neither a
  message nor a compaction: it is the valid cut point itself or a metadata entry that the
  leftward expansion from that cut point absorbed. The expansion stops at the start
  index or after a message or compaction entry, and the index is never that of a
  toolResult message entry.
\<close>

theorem cut_point_legal_or_metadata:
  "(e \<le> length entries \<longrightarrow> (\<exists>r. findCutPoint S entries s e k = Inr r)) \<and>
   (\<forall>r. findCutPoint S entries s e k = Inr r \<longrightarrow>
      (firstKeptEntryIndex r = s \<and> (\<forall>c. s \<le> c \<and> c < e \<longrightarrow> \<not> legalCutPoint (entries ! c))) \<or>
      (\<exists>c. s \<le> firstKeptEntryIndex r \<and> firstKeptEntryIndex r \<le> c \<and> c < e \<and> e \<le> length entries \<and>
           legalCutPoint (entries ! c) \<and>
           (\<forall>j. firstKeptEntryIndex r \<le> j \<and> j < c \<longrightarrow> metadataEntry (entries ! j)) \<and>
           (s < firstKeptEntryIndex r \<longrightarrow> \<not> metadataEntry (entries ! (firstKeptEntryIndex r - 1))) \<and>
           \<not> isToolResultEntry (entries ! firstKeptEntryIndex r)))"
proof (intro conjI allI impI)
  assume le: "e \<le> length entries"
  obtain cps where cps: "findValidCutPoints entries s e = Inr cps"
    using findValidCutPointsLoop_total[of "[s..<e]" entries "[]"] le
    by (auto simp: findValidCutPoints_def)
  note f = findValidCutPoints_Inr[OF cps]
  show "\<exists>r. findCutPoint S entries s e k = Inr r"
  proof (cases "cps = []")
    case True
    then show ?thesis using cps by (simp add: findCutPoint_def)
  next
    case False
    obtain reached where reached: "walkBack S entries k (rev [s..<e]) 0 = Inr reached"
      using walkBack_total[of "rev [s..<e]" entries S k 0] le by auto
    define c0 where "c0 = (case reached of None \<Rightarrow> hd cps | Some i \<Rightarrow> closestCutPoint cps i)"
    have "c0 \<in> set cps"
      using False closestCutPoint_mem[OF False] by (auto simp: c0_def split: option.splits)
    then have c0: "s \<le> c0" "c0 < e" using f(1) by auto
    obtain c where c: "includeMetadata entries s c0 = Inr c"
      using includeMetadata_total[of c0 entries s] c0 le by auto
    have cb: "c \<le> c0" using includeMetadata_Inr[OF c] by auto
    then have cl: "c < length entries" using c0 le by simp
    have "\<forall>i \<in> set (rev [s..<Suc c]). i < length entries"
      using cl by auto
    then obtain t where t: "findTurnStartIndex entries c s = Inr t"
      unfolding findTurnStartIndex_def using findTurnStartLoop_total by blast
    show ?thesis using cps False reached c cl t unfolding c0_def
      by (simp add: findCutPoint_def Let_def entryAt_def)
  qed
next
  fix r assume r: "findCutPoint S entries s e k = Inr r"
  let ?fk = "firstKeptEntryIndex r"
  let ?none = "?fk = s \<and> (\<forall>c. s \<le> c \<and> c < e \<longrightarrow> \<not> legalCutPoint (entries ! c))"
  let ?tied = "\<exists>c. s \<le> ?fk \<and> ?fk \<le> c \<and> c < e \<and> e \<le> length entries \<and>
           legalCutPoint (entries ! c) \<and>
           (\<forall>j. ?fk \<le> j \<and> j < c \<longrightarrow> metadataEntry (entries ! j)) \<and>
           (s < ?fk \<longrightarrow> \<not> metadataEntry (entries ! (?fk - 1))) \<and>
           \<not> isToolResultEntry (entries ! ?fk)"
  from findCutPoint_Inr_cases[OF r] consider
    "filter (\<lambda>i. legalCutPoint (entries ! i)) [s..<e] = []" "?fk = s" |
    c0 where "c0 \<in> set (filter (\<lambda>i. legalCutPoint (entries ! i)) [s..<e])"
      "includeMetadata entries s c0 = Inr ?fk" "e \<le> length entries"
    by blast
  then show "?none \<or> ?tied"
  proof cases
    case 1
    have "\<not> legalCutPoint (entries ! c)" if "s \<le> c" "c < e" for c
    proof
      assume "legalCutPoint (entries ! c)"
      then have "c \<in> set (filter (\<lambda>i. legalCutPoint (entries ! i)) [s..<e])"
        using that by simp
      then show False using 1(1) by simp
    qed
    then show ?thesis using 1(2) by blast
  next
    case 2
    have c0: "s \<le> c0" "c0 < e" "legalCutPoint (entries ! c0)" using 2(1) by auto
    note run = includeMetadata_run[OF 2(2)]
    have lo: "s \<le> ?fk"
    proof (cases "?fk < c0")
      case True
      then show ?thesis using run by blast
    next
      case False
      then show ?thesis using run c0(1) by simp
    qed
    have noTR: "legalCutPoint x \<or> metadataEntry x \<Longrightarrow> \<not> isToolResultEntry x" for x
      by (cases x) (auto simp: metadataEntry_def)
    have "legalCutPoint (entries ! ?fk) \<or> metadataEntry (entries ! ?fk)"
    proof (cases "?fk < c0")
      case True
      then show ?thesis using run by blast
    next
      case False
      then have "?fk = c0" using run by simp
      then show ?thesis using c0(3) by simp
    qed
    then have "\<not> isToolResultEntry (entries ! ?fk)" by (rule noTR)
    then have ?tied using lo run c0 2(3) by blast
    then show ?thesis ..
  qed
qed

theorem cut_point_legal_or_metadata_witness:
  "3 \<le> length [userEntry ''hello'', LabelEntry ''l'', assistantEntry ''hello''] \<and>
   findCutPoint noStringify [userEntry ''hello'', LabelEntry ''l'', assistantEntry ''hello''] 0 3 1
   = Inr \<lparr>firstKeptEntryIndex = 1, turnStartIndex = 0, isSplitTurn = True\<rparr> \<and>
   legalCutPoint ([userEntry ''hello'', LabelEntry ''l'', assistantEntry ''hello''] ! 2) \<and>
   metadataEntry ([userEntry ''hello'', LabelEntry ''l'', assistantEntry ''hello''] ! 1) \<and>
   \<not> metadataEntry ([userEntry ''hello'', LabelEntry ''l'', assistantEntry ''hello''] ! 0) \<and>
   \<not> isToolResultEntry ([userEntry ''hello'', LabelEntry ''l'', assistantEntry ''hello''] ! 1)"
  using cut_point_legal_or_metadata[of 3 "[userEntry ''hello'', LabelEntry ''l'', assistantEntry ''hello'']" noStringify 0 1]
    label_example_eval label_entries_eval
  by simp

subsection \<open>The budget and the cut point\<close>

lemma walkBack_mem:
  "walkBack S entries k idxs acc = Inr (Some i) \<Longrightarrow> i \<in> set idxs"
proof (induction idxs arbitrary: acc)
  case Nil
  then show ?case by simp
next
  case (Cons j idxs)
  then show ?case
    by (auto simp: entryAt_def Let_def split: if_splits SessionEntry.splits)
qed

lemma walkBack_monotone:
  assumes "k1 \<le> k2"
  shows "sorted_wrt (\<ge>) idxs \<Longrightarrow>
   walkBack S entries k2 idxs acc = Inr (Some i2) \<Longrightarrow>
   walkBack S entries k1 idxs acc = Inr r1 \<Longrightarrow> \<exists>i1. r1 = Some i1 \<and> i2 \<le> i1"
proof (induction idxs arbitrary: acc)
  case Nil
  then show ?case by simp
next
  case (Cons j idxs)
  have jr: "j < length entries"
    using Cons.prems(2) by (auto simp: entryAt_def split: if_splits)
  have below: "\<forall>x \<in> set idxs. x \<le> j" and sorted: "sorted_wrt (\<ge>) idxs"
    using Cons.prems(1) by auto
  show ?case
  proof (cases "entries ! j")
    case (MessageEntry eid message)
    let ?acc = "acc + estimateTokens S message"
    show ?thesis
    proof (cases "int ?acc \<ge> k1")
      case True
      then have "r1 = Some j"
        using Cons.prems(3) jr MessageEntry by (simp add: entryAt_def Let_def)
      moreover have "i2 \<le> j"
        using walkBack_mem[OF Cons.prems(2)] below by auto
      ultimately show ?thesis by simp
    next
      case False
      then have "\<not> int ?acc \<ge> k2" using assms by simp
      then have 2: "walkBack S entries k2 idxs ?acc = Inr (Some i2)"
        using Cons.prems(2) jr MessageEntry by (simp add: entryAt_def Let_def)
      have 1: "walkBack S entries k1 idxs ?acc = Inr r1"
        using Cons.prems(3) jr MessageEntry False by (simp add: entryAt_def Let_def)
      from Cons.IH[OF sorted 2 1] show ?thesis .
    qed
  qed (use Cons.IH[OF sorted, of acc] Cons.prems(2,3) jr in \<open>simp_all add: entryAt_def\<close>)
qed

lemma includeMetadata_le:
  "includeMetadata entries s c = Inr r \<Longrightarrow> r \<le> c"
  using includeMetadata_Inr[of entries s c r] by auto

lemma includeMetadata_monotone:
  "c2 \<le> c1 \<Longrightarrow> includeMetadata entries s c1 = Inr r1 \<Longrightarrow>
   includeMetadata entries s c2 = Inr r2 \<Longrightarrow> r2 \<le> r1"
proof (induction c1)
  case 0
  then show ?case by simp
next
  case (Suc c1)
  show ?case
  proof (cases "c2 = Suc c1")
    case True
    then show ?thesis using Suc.prems by simp
  next
    case False
    then have le: "c2 \<le> c1" using Suc.prems(1) by simp
    have r2: "r2 \<le> c2" using Suc.prems(3) by (rule includeMetadata_le)
    show ?thesis
    proof (cases "r1 = Suc c1")
      case True
      then show ?thesis using r2 le by simp
    next
      case False
      then have "includeMetadata entries s c1 = Inr r1"
        using Suc.prems(2) by (auto simp: entryAt_def split: if_splits)
      from Suc.IH[OF le this Suc.prems(3)] show ?thesis .
    qed
  qed
qed

lemma find_first_ge:
  assumes "sorted cps" and "c \<in> set cps" and "i \<le> c"
  shows "\<exists>c'. find (\<lambda>x. x \<ge> i) cps = Some c' \<and> c' \<le> c \<and> c' \<in> set cps"
  using assms
proof (induction cps)
  case Nil
  then show ?case by simp
next
  case (Cons x cps)
  then show ?case by (cases "i \<le> x") auto
qed

lemma hd_sorted_le: "sorted cps \<Longrightarrow> c \<in> set cps \<Longrightarrow> hd cps \<le> c"
  by (cases cps) auto

lemma closestCutPoint_monotone:
  assumes "sorted cps" and "i2 \<le> i1" and "\<exists>c \<in> set cps. i1 \<le> c"
  shows "closestCutPoint cps i2 \<le> closestCutPoint cps i1"
proof -
  obtain c where c: "c \<in> set cps" "i1 \<le> c" using assms(3) by blast
  obtain c1 where c1: "find (\<lambda>x. x \<ge> i1) cps = Some c1" "c1 \<in> set cps"
    using find_first_ge[OF assms(1) c] by blast
  have "i1 \<le> c1" using c1(1) by (auto simp: find_Some_iff)
  then have "i2 \<le> c1" using assms(2) by simp
  then obtain c2 where "find (\<lambda>x. x \<ge> i2) cps = Some c2" "c2 \<le> c1"
    using find_first_ge[OF assms(1) c1(2)] by blast
  then show ?thesis using c1(1) by (simp add: closestCutPoint_def)
qed

text \<open>A larger budget never moves the cut point to the right, provided that a valid
  cut point lies at or after the entry at which the smaller budget is reached.\<close>

lemma findCutPoint_monotone:
  assumes "k1 \<le> k2"
    and "findCutPoint S entries s e k1 = Inr r1"
    and "findCutPoint S entries s e k2 = Inr r2"
    and "\<forall>i. walkBack S entries k1 (rev [s..<e]) 0 = Inr (Some i) \<longrightarrow>
           (\<exists>c \<in> {i..<e}. legalCutPoint (entries ! c))"
  shows "firstKeptEntryIndex r2 \<le> firstKeptEntryIndex r1"
proof -
  obtain cps where cps: "findValidCutPoints entries s e = Inr cps"
    using assms(2) by (auto simp: findCutPoint_def split: sum.splits)
  note f = findValidCutPoints_Inr[OF cps]
  have sorted: "sorted cps" using f(1) by (simp add: sorted_wrt_filter)
  show ?thesis
  proof (cases "cps = []")
    case True
    then show ?thesis using assms(2,3) cps by (auto simp: findCutPoint_def)
  next
    case False
    obtain w1 where w1: "walkBack S entries k1 (rev [s..<e]) 0 = Inr w1"
      using assms(2) cps False by (auto simp: findCutPoint_def split: sum.splits)
    obtain w2 where w2: "walkBack S entries k2 (rev [s..<e]) 0 = Inr w2"
      using assms(3) cps False by (auto simp: findCutPoint_def split: sum.splits)
    define c1 where "c1 = (case w1 of None \<Rightarrow> hd cps | Some i \<Rightarrow> closestCutPoint cps i)"
    define c2 where "c2 = (case w2 of None \<Rightarrow> hd cps | Some i \<Rightarrow> closestCutPoint cps i)"
    have m1: "includeMetadata entries s c1 = Inr (firstKeptEntryIndex r1)"
      using assms(2) cps False w1 unfolding c1_def
      by (auto simp: findCutPoint_def Let_def split: sum.splits if_splits)
    have m2: "includeMetadata entries s c2 = Inr (firstKeptEntryIndex r2)"
      using assms(3) cps False w2 unfolding c2_def
      by (auto simp: findCutPoint_def Let_def split: sum.splits if_splits)
    have c1mem: "c1 \<in> set cps"
      using False closestCutPoint_mem[OF False] by (auto simp: c1_def split: option.splits)
    have desc: "sorted_wrt (\<ge>) (rev [s..<e])"
      by (simp add: sorted_wrt_rev)
    have "c2 \<le> c1"
    proof (cases w2)
      case None
      then show ?thesis using hd_sorted_le[OF sorted c1mem] by (simp add: c2_def)
    next
      case (Some i2)
      obtain i1 where i1: "w1 = Some i1" "i2 \<le> i1"
        using walkBack_monotone[OF assms(1) desc] w2 w1 Some by blast
      have "\<exists>c \<in> {i1..<e}. legalCutPoint (entries ! c)"
        using assms(4) w1 i1(1) by simp
      moreover have "s \<le> i1" using walkBack_mem[of S entries k1 "rev [s..<e]" 0 i1] w1 i1(1) by simp
      ultimately obtain c where "c \<in> {i1..<e}" "legalCutPoint (entries ! c)" "s \<le> c"
        by force
      then have "c \<in> set cps \<and> i1 \<le> c" using f(1) by simp
      then have "\<exists>c \<in> set cps. i1 \<le> c" by blast
      from closestCutPoint_monotone[OF sorted i1(2) this] show ?thesis
        using Some i1(1) by (simp add: c1_def c2_def)
    qed
    from includeMetadata_monotone[OF this m1 m2] show ?thesis .
  qed
qed

text \<open>
  Claim C4 (keep-recent monotonicity): a larger budget never retains fewer entries. By
  \<open>findCutPoint_monotone\<close> this holds unless the smaller budget is reached at an entry
  with no valid cut point at or after it. That case exists: on the entries user,
  assistant, toolResult the budget 1 is reached at the trailing toolResult, the inner
  loop finds no cut point, and \<open>cutIndex\<close> keeps its default, the first cut point:
  index 0. The larger budget 3 is reached at the assistant message and gives index 1, so
  it retains fewer entries.
\<close>

theorem larger_budget_retains_less_after_trailing_toolResult:
  "findCutPoint noStringify
     [userEntry ''hello world, hello'', assistantEntry ''12345678'', toolResultEntry ''1234''] 0 3 1
   = Inr \<lparr>firstKeptEntryIndex = 0, turnStartIndex = - 1, isSplitTurn = False\<rparr> \<and>
   findCutPoint noStringify
     [userEntry ''hello world, hello'', assistantEntry ''12345678'', toolResultEntry ''1234''] 0 3 3
   = Inr \<lparr>firstKeptEntryIndex = 1, turnStartIndex = 0, isSplitTurn = True\<rparr>"
  by code_simp

section \<open>Properties of the event stream\<close>

lemma reachable_result_done:
  "reachable isComplete extractResult s \<Longrightarrow> es_finalResult s \<noteq> None \<Longrightarrow> es_done s"
proof (induction rule: reachable.induct)
  case reachable_new
  then show ?case by (simp add: newEventStream_def)
next
  case (reachable_push s event)
  then show ?case
    by (auto simp: push_def Let_def resolveFinalResult_def split: if_splits list.splits option.splits)
next
  case (reachable_end s r)
  then show ?case by (simp add: endStream_def)
next
  case (reachable_next s waiter)
  then show ?case by (auto simp: consumerNext_def split: list.splits if_splits)
qed

lemma push_done: "es_done s \<Longrightarrow> push isComplete extractResult s event = s"
  by (simp add: push_def)

lemma foldl_push_done:
  "es_done s \<Longrightarrow> foldl (push isComplete extractResult) s events = s"
  by (induction events) (simp_all add: push_done)

lemma push_terminal_done:
  "isComplete event \<Longrightarrow> es_done (push isComplete extractResult s event)"
  by (auto simp: push_def Let_def split: list.splits)

lemma push_terminal_result:
  "isComplete event \<Longrightarrow> \<not> es_done s \<Longrightarrow> es_finalResult s = None \<Longrightarrow>
   es_finalResult (push isComplete extractResult s event) = Some (extractResult event)"
  by (auto simp: push_def Let_def resolveFinalResult_def split: list.splits)

text \<open>
  Claim C8 (terminal semantics). For every state of an event stream that its methods can
  reach and every event that \<open>isComplete\<close> holds of: \<open>push\<close> leaves the stream ended,
  and, the stream not being ended before, resolves the final result with
  \<open>extractResult\<close> of the event. \<open>end\<close> leaves the stream ended. On an ended stream
  every sequence of pushes leaves the whole state as it is: no event is put in the queue
  and none is handed to a waiting consumer.
\<close>

theorem event_stream_terminal_semantics:
  assumes "reachable isComplete extractResult s"
  shows "(isComplete event \<longrightarrow> es_done (push isComplete extractResult s event)) \<and>
         (isComplete event \<and> \<not> es_done s \<longrightarrow>
            es_finalResult (push isComplete extractResult s event) = Some (extractResult event)) \<and>
         es_done (endStream s r) \<and>
         (es_done s \<longrightarrow> foldl (push isComplete extractResult) s events = s)"
proof -
  have "\<not> es_done s \<Longrightarrow> es_finalResult s = None"
    using reachable_result_done[OF assms] by blast
  then show ?thesis
    by (auto simp: push_terminal_done push_terminal_result foldl_push_done endStream_def)
qed

theorem event_stream_terminal_semantics_witness:
  "reachable isDoneEvent resultOfEvent (push isDoneEvent resultOfEvent newEventStream 5) \<and>
   isDoneEvent 0 \<and>
   \<not> es_done (push isDoneEvent resultOfEvent newEventStream 5) \<and>
   es_done (push isDoneEvent resultOfEvent (push isDoneEvent resultOfEvent newEventStream 5) 0) \<and>
   es_finalResult (push isDoneEvent resultOfEvent (push isDoneEvent resultOfEvent newEventStream 5) 0)
     = Some ''final'' \<and>
   es_queue (foldl (push isDoneEvent resultOfEvent)
       (push isDoneEvent resultOfEvent (push isDoneEvent resultOfEvent newEventStream 5) 0) [7, 8])
     = [5, 0]"
proof -
  have r1: "reachable isDoneEvent resultOfEvent (push isDoneEvent resultOfEvent newEventStream 5)"
    by (intro reachable_push reachable_new)
  have r2: "reachable isDoneEvent resultOfEvent
      (push isDoneEvent resultOfEvent (push isDoneEvent resultOfEvent newEventStream 5) 0)"
    by (intro reachable_push reachable_new)
  show ?thesis
    using r1 event_stream_terminal_semantics[OF r1, of 0 None "[]"] event_stream_terminal_semantics[OF r2, of 0 None "[7, 8]"]
    by (simp add: push_def newEventStream_def isDoneEvent_def resultOfEvent_def resolveFinalResult_def)
qed

section \<open>Properties of the tool-call loop\<close>

lemma skipToolCall_result:
  "skipToolCall env toolCall stream w = (r, stream', w') \<Longrightarrow>
   skippedResult toolCall r \<and> stream' = stream @ skippedEvents toolCall r \<and> w' = snd (env_dateNow env w)"
  by (auto simp: skipToolCall_def skippedResult_def skippedEvents_def Let_def case_prod_beta)

lemma skipRemaining_results:
  "\<exists>skipped. list_all2 skippedResult remaining skipped \<and>
     ex_results (skipRemaining env remaining st) = ex_results st @ skipped \<and>
     ex_stream (skipRemaining env remaining st) =
       ex_stream st @ concat (map (\<lambda>(toolCall, r). skippedEvents toolCall r) (zip remaining skipped)) \<and>
     ex_world (skipRemaining env remaining st) =
       ((\<lambda>w. snd (env_dateNow env w)) ^^ length remaining) (ex_world st)"
proof (induction remaining arbitrary: st)
  case Nil
  then show ?case by simp
next
  case (Cons toolCall remaining)
  obtain r stream1 w1 where sk: "skipToolCall env toolCall (ex_stream st) (ex_world st) = (r, stream1, w1)"
    by (metis prod_cases3)
  note one = skipToolCall_result[OF sk]
  let ?st1 = "\<lparr>ex_stream = stream1, ex_results = ex_results st @ [r], ex_world = w1\<rparr>"
  obtain skipped where sk2: "list_all2 skippedResult remaining skipped"
      "ex_results (skipRemaining env remaining ?st1) = ex_results ?st1 @ skipped"
      "ex_stream (skipRemaining env remaining ?st1) =
         ex_stream ?st1 @ concat (map (\<lambda>(toolCall, r). skippedEvents toolCall r) (zip remaining skipped))"
      "ex_world (skipRemaining env remaining ?st1) =
         ((\<lambda>w. snd (env_dateNow env w)) ^^ length remaining) (ex_world ?st1)"
    using Cons.IH[of ?st1] by blast
  have "list_all2 skippedResult (toolCall # remaining) (r # skipped)"
    using one sk2(1) by simp
  moreover have "ex_results (skipRemaining env (toolCall # remaining) st) = ex_results st @ (r # skipped)"
    using sk sk2(2) by simp
  moreover have "ex_stream (skipRemaining env (toolCall # remaining) st) =
       ex_stream st @ concat (map (\<lambda>(toolCall, r). skippedEvents toolCall r) (zip (toolCall # remaining) (r # skipped)))"
    using sk sk2(3) one by simp
  moreover have "ex_world (skipRemaining env (toolCall # remaining) st) =
       ((\<lambda>w. snd (env_dateNow env w)) ^^ length (toolCall # remaining)) (ex_world st)"
    using sk sk2(4) one
      funpow_swap1[of "\<lambda>w. snd (env_dateNow env w)" "length remaining" "ex_world st"]
    by simp
  ultimately show ?case by blast
qed

lemma executeLoop_append:
  "executeLoop env tools executed st = (st0, None) \<Longrightarrow>
   executeLoop env tools (executed @ calls) st = executeLoop env tools calls st0"
proof (induction executed arbitrary: st)
  case Nil
  then show ?case by simp
next
  case (Cons toolCall executed)
  show ?case
  proof (cases "env_getSteeringMessages env")
    case None
    then show ?thesis using Cons by simp
  next
    case (Some g)
    then show ?thesis using Cons
      by (auto simp: Let_def case_prod_beta split: if_splits)
  qed
qed

lemma steering_example_eval:
  "toolCallsOf threeCalls = [callOf ''a''] @ callOf ''b'' # [callOf ''c'']"
  "snd (executeLoop exampleEnv (Some [lsTool]) [callOf ''a''] startState) = None"
  "steerAfterTwenty (ex_world (executeOne exampleEnv (Some [lsTool]) (callOf ''b'')
      (fst (executeLoop exampleEnv (Some [lsTool]) [callOf ''a''] startState)))) = ([Llm (userOf ''wait'')], 22)"
  "map tr_toolCallId (ex_results (fst (executeToolCalls exampleEnv (Some [lsTool]) threeCalls [] 0))) = [''a'', ''b'', ''c'']"
  "map tr_isError (ex_results (fst (executeToolCalls exampleEnv (Some [lsTool]) threeCalls [] 0))) = [False, False, True]"
  "snd (executeToolCalls exampleEnv (Some [lsTool]) threeCalls [] 0) = Some [Llm (userOf ''wait'')]"
  "ex_world (fst (executeToolCalls exampleEnv (Some [lsTool]) threeCalls [] 0)) = 23"
  by code_simp+

text \<open>
  Claim C7 (steering skip). Let the tool calls of the assistant message be
  \<open>executed @ toolCall # subsequent\<close>, let the loop have run the calls \<open>executed\<close>
  without a steering batch, and let \<open>getSteeringMessages\<close> return a non-empty batch
  after \<open>toolCall\<close> has completed. Then \<open>executeToolCalls\<close> returns that batch; after the
  result of \<open>toolCall\<close> the results are one toolResult for each subsequent call, in
  order, with the call's id and name, the single text block
  \<open>Skipped due to queued user message.\<close> and isError true; after the events of
  \<open>toolCall\<close> the stream holds, for each subsequent call, its own tool_execution_start,
  tool_execution_end, message_start and message_end and nothing else; and the world
  after the call is the one the steering poll left, but for one reading of the clock per
  skipped call: no subsequent tool is executed.
\<close>

theorem steering_skips_subsequent_tool_calls:
  assumes "toolCallsOf assistantMessage = executed @ toolCall # subsequent"
    and "executeLoop env tools executed \<lparr>ex_stream = stream, ex_results = [], ex_world = w\<rparr> = (st0, None)"
    and "env_getSteeringMessages env = Some getSteeringMessages"
    and "getSteeringMessages (ex_world (executeOne env tools toolCall st0)) = (steering, w1)"
    and "steering \<noteq> []"
  shows "\<exists>final skipped.
     executeToolCalls env tools assistantMessage stream w = (final, Some steering) \<and>
     list_all2 skippedResult subsequent skipped \<and>
     ex_results final = ex_results (executeOne env tools toolCall st0) @ skipped \<and>
     ex_stream final = ex_stream (executeOne env tools toolCall st0) @
       concat (map (\<lambda>(toolCall, r). skippedEvents toolCall r) (zip subsequent skipped)) \<and>
     ex_world final = ((\<lambda>w. snd (env_dateNow env w)) ^^ length subsequent) w1"
proof -
  let ?st1 = "executeOne env tools toolCall st0"
  have "executeToolCalls env tools assistantMessage stream w =
        executeLoop env tools (toolCall # subsequent) st0"
    using assms(1) executeLoop_append[OF assms(2)] by (simp add: executeToolCalls_def)
  also have "\<dots> = (skipRemaining env subsequent (?st1\<lparr>ex_world := w1\<rparr>), Some steering)"
    using assms(3,4,5) by (simp add: Let_def)
  finally have run: "executeToolCalls env tools assistantMessage stream w =
      (skipRemaining env subsequent (?st1\<lparr>ex_world := w1\<rparr>), Some steering)" .
  show ?thesis
    using run skipRemaining_results[of subsequent env "?st1\<lparr>ex_world := w1\<rparr>"]
    by auto
qed

theorem steering_skips_subsequent_tool_calls_witness:
  "toolCallsOf threeCalls = [callOf ''a''] @ callOf ''b'' # [callOf ''c''] \<and>
   snd (executeLoop exampleEnv (Some [lsTool]) [callOf ''a''] startState) = None \<and>
   env_getSteeringMessages exampleEnv = Some steerAfterTwenty \<and>
   steerAfterTwenty (ex_world (executeOne exampleEnv (Some [lsTool]) (callOf ''b'')
      (fst (executeLoop exampleEnv (Some [lsTool]) [callOf ''a''] startState)))) = ([Llm (userOf ''wait'')], 22) \<and>
   map tr_isError (ex_results (fst (executeToolCalls exampleEnv (Some [lsTool]) threeCalls [] 0)))
     = [False, False, True] \<and>
   snd (executeToolCalls exampleEnv (Some [lsTool]) threeCalls [] 0) = Some [Llm (userOf ''wait'')] \<and>
   ex_world (fst (executeToolCalls exampleEnv (Some [lsTool]) threeCalls [] 0)) = 23"
proof -
  let ?st0 = "fst (executeLoop exampleEnv (Some [lsTool]) [callOf ''a''] startState)"
  have h2: "executeLoop exampleEnv (Some [lsTool]) [callOf ''a'']
      \<lparr>ex_stream = [], ex_results = [], ex_world = 0\<rparr> = (?st0, None)"
    using steering_example_eval(2) by (simp add: startState_def prod_eq_iff)
  have h3: "env_getSteeringMessages exampleEnv = Some steerAfterTwenty"
    by (simp add: exampleEnv_def)
  have h5: "[Llm (userOf ''wait'')] \<noteq> []" by simp
  show ?thesis
    using steering_skips_subsequent_tool_calls[OF steering_example_eval(1) h2 h3 steering_example_eval(3) h5]
      steering_example_eval h3
    by simp
qed

section \<open>Properties of the proxy codec\<close>

lemma rebuild_Nil [simp]: "rebuild parse [] p = Inr p"
  by (simp add: rebuild_def)

lemma rebuild_Cons:
  "rebuild parse (e # es) p =
     (case processProxyEvent parse e p of Inl err \<Rightarrow> Inl err | Inr (ev, p1) \<Rightarrow> rebuild parse es p1)"
  by (auto simp: rebuild_def split: sum.splits prod.splits)

lemma rebuild_append:
  "rebuild parse (xs @ ys) p =
     (case rebuild parse xs p of Inl err \<Rightarrow> Inl err | Inr p1 \<Rightarrow> rebuild parse ys p1)"
proof (induction xs arbitrary: p)
  case Nil
  then show ?case by simp
next
  case (Cons x xs)
  then show ?case by (auto simp: rebuild_Cons split: sum.splits)
qed

lemma arrayGet_nth [simp]: "i < length xs \<Longrightarrow> arrayGet xs i = xs ! i"
  by (simp add: arrayGet_def)

lemma arraySet_update [simp]: "i < length xs \<Longrightarrow> arraySet xs i v = xs[i := Some v]"
  by (simp add: arraySet_def)

lemma arraySet_end [simp]: "arraySet xs (length xs) v = xs @ [Some v]"
  by (simp add: arraySet_def)

lemma update_same: "xs ! i = v \<Longrightarrow> xs[i := v] = xs"
  by (metis list_update_id)

lemma rebuild_text_deltas:
  "i < length (pm_content p) \<Longrightarrow> pm_content p ! i = Some (Text t sg) \<Longrightarrow>
   rebuild parse (map (PTextDelta i) ds) p =
     Inr (p\<lparr>pm_content := (pm_content p)[i := Some (Text (t @ concat ds) sg)]\<rparr>)"
proof (induction ds arbitrary: p t)
  case Nil
  then show ?case by (simp add: update_same)
next
  case (Cons d ds)
  let ?p1 = "p\<lparr>pm_content := (pm_content p)[i := Some (Text (t @ d) sg)]\<rparr>"
  have step: "processProxyEvent parse (PTextDelta i d) p = Inr (Some (EvTextDelta i d ?p1), ?p1)"
    using Cons.prems by (simp add: Let_def)
  have "rebuild parse (map (PTextDelta i) ds) ?p1 =
     Inr (?p1\<lparr>pm_content := (pm_content ?p1)[i := Some (Text ((t @ d) @ concat ds) sg)]\<rparr>)"
    using Cons.prems by (intro Cons.IH) simp_all
  then show ?case using step by (simp add: rebuild_Cons)
qed

lemma rebuild_thinking_deltas:
  "i < length (pm_content p) \<Longrightarrow> pm_content p ! i = Some (Thinking t sg) \<Longrightarrow>
   rebuild parse (map (PThinkingDelta i) ds) p =
     Inr (p\<lparr>pm_content := (pm_content p)[i := Some (Thinking (t @ concat ds) sg)]\<rparr>)"
proof (induction ds arbitrary: p t)
  case Nil
  then show ?case by (simp add: update_same)
next
  case (Cons d ds)
  let ?p1 = "p\<lparr>pm_content := (pm_content p)[i := Some (Thinking (t @ d) sg)]\<rparr>"
  have step: "processProxyEvent parse (PThinkingDelta i d) p = Inr (Some (EvThinkingDelta i d ?p1), ?p1)"
    using Cons.prems by (simp add: Let_def)
  have "rebuild parse (map (PThinkingDelta i) ds) ?p1 =
     Inr (?p1\<lparr>pm_content := (pm_content ?p1)[i := Some (Thinking ((t @ d) @ concat ds) sg)]\<rparr>)"
    using Cons.prems by (intro Cons.IH) simp_all
  then show ?case using step by (simp add: rebuild_Cons)
qed

lemma rebuild_toolcall_deltas:
  "i < length (pm_content p) \<Longrightarrow> pm_content p ! i = Some (ToolCallBlock tc) \<Longrightarrow>
   tc_partialJson tc = Some pj \<Longrightarrow>
   rebuild parse (map (PToolcallDelta i) ds) p =
     Inr (p\<lparr>pm_content := (pm_content p)[i := Some (ToolCallBlock
        (if ds = [] then tc
         else tc\<lparr>tc_partialJson := Some (pj @ concat ds),
                 tc_arguments := orEmptyObject (parse (pj @ concat ds))\<rparr>))]\<rparr>)"
proof (induction ds arbitrary: p tc pj)
  case Nil
  then show ?case by (simp add: update_same)
next
  case (Cons d ds)
  let ?tc1 = "tc\<lparr>tc_partialJson := Some (pj @ d), tc_arguments := orEmptyObject (parse (pj @ d))\<rparr>"
  let ?p1 = "p\<lparr>pm_content := (pm_content p)[i := Some (ToolCallBlock ?tc1)]\<rparr>"
  have step: "processProxyEvent parse (PToolcallDelta i d) p = Inr (Some (EvToolcallDelta i d ?p1), ?p1)"
    using Cons.prems by (simp add: appendPartialJson_def Let_def)
  have "rebuild parse (map (PToolcallDelta i) ds) ?p1 =
     Inr (?p1\<lparr>pm_content := (pm_content ?p1)[i := Some (ToolCallBlock
        (if ds = [] then ?tc1
         else ?tc1\<lparr>tc_partialJson := Some ((pj @ d) @ concat ds),
                 tc_arguments := orEmptyObject (parse ((pj @ d) @ concat ds))\<rparr>))]\<rparr>)"
    using Cons.prems by (intro Cons.IH) simp_all
  then show ?case using step by (simp add: rebuild_Cons)
qed

lemma rebuild_blockEvents:
  assumes "i = length (pm_content p)" and "fragmentsFit parse b ds" and "noThoughtSignature b"
  shows "rebuild parse (blockEvents i b ds) p = Inr (p\<lparr>pm_content := pm_content p @ [Some b]\<rparr>)"
proof (cases b)
  case (Text t sg)
  let ?p1 = "p\<lparr>pm_content := pm_content p @ [Some (Text [] None)]\<rparr>"
  let ?p2 = "?p1\<lparr>pm_content := (pm_content ?p1)[i := Some (Text ([] @ concat ds) None)]\<rparr>"
  have 1: "processProxyEvent parse (PTextStart i) p = Inr (Some (EvTextStart i ?p1), ?p1)"
    using assms(1) by (simp add: Let_def arraySet_def)
  have 2: "rebuild parse (map (PTextDelta i) ds) ?p1 = Inr ?p2"
    using assms(1) by (intro rebuild_text_deltas) (simp_all add: nth_append)
  have 3: "rebuild parse [PTextEnd i sg] ?p2 = Inr (p\<lparr>pm_content := pm_content p @ [Some b]\<rparr>)"
    using assms(1,2) Text by (simp add: rebuild_Cons Let_def)
  show ?thesis using Text 1 2 3 by (simp add: rebuild_Cons rebuild_append)
next
  case (Thinking t sg)
  let ?p1 = "p\<lparr>pm_content := pm_content p @ [Some (Thinking [] None)]\<rparr>"
  let ?p2 = "?p1\<lparr>pm_content := (pm_content ?p1)[i := Some (Thinking ([] @ concat ds) None)]\<rparr>"
  have 1: "processProxyEvent parse (PThinkingStart i) p = Inr (Some (EvThinkingStart i ?p1), ?p1)"
    using assms(1) by (simp add: Let_def arraySet_def)
  have 2: "rebuild parse (map (PThinkingDelta i) ds) ?p1 = Inr ?p2"
    using assms(1) by (intro rebuild_thinking_deltas) (simp_all add: nth_append)
  have 3: "rebuild parse [PThinkingEnd i sg] ?p2 = Inr (p\<lparr>pm_content := pm_content p @ [Some b]\<rparr>)"
    using assms(1,2) Thinking by (simp add: rebuild_Cons Let_def)
  show ?thesis using Thinking 1 2 3 by (simp add: rebuild_Cons rebuild_append)
next
  case (ToolCallBlock tc)
  let ?tc0 = "\<lparr>tc_id = tc_id tc, tc_name = tc_name tc, tc_arguments = JObj [],
               tc_thoughtSignature = None, tc_partialJson = Some []\<rparr>"
  let ?tc1 = "if ds = [] then ?tc0
              else ?tc0\<lparr>tc_partialJson := Some ([] @ concat ds),
                        tc_arguments := orEmptyObject (parse ([] @ concat ds))\<rparr>"
  let ?p1 = "p\<lparr>pm_content := pm_content p @ [Some (ToolCallBlock ?tc0)]\<rparr>"
  let ?p2 = "?p1\<lparr>pm_content := (pm_content ?p1)[i := Some (ToolCallBlock ?tc1)]\<rparr>"
  have 1: "processProxyEvent parse (PToolcallStart i (tc_id tc) (tc_name tc)) p =
      Inr (Some (EvToolcallStart i ?p1), ?p1)"
    using assms(1) by (simp add: Let_def arraySet_def)
  have 2: "rebuild parse (map (PToolcallDelta i) ds) ?p1 = Inr ?p2"
    using assms(1) by (intro rebuild_toolcall_deltas) (simp_all add: nth_append)
  have tc: "?tc1\<lparr>tc_partialJson := None\<rparr> = tc"
    using assms(2,3) ToolCallBlock by (cases tc) simp
  have 3: "rebuild parse [PToolcallEnd i] ?p2 = Inr (p\<lparr>pm_content := pm_content p @ [Some b]\<rparr>)"
    using assms(1) ToolCallBlock tc by (simp add: rebuild_Cons Let_def del: if_split cong: if_cong)
  show ?thesis using ToolCallBlock 1 2 3 by (simp add: rebuild_Cons rebuild_append)
qed

lemma rebuild_contentEvents:
  "i = length (pm_content p) \<Longrightarrow> list_all2 (fragmentsFit parse) bs dss \<Longrightarrow>
   list_all noThoughtSignature bs \<Longrightarrow>
   rebuild parse (contentEvents i bs dss) p = Inr (p\<lparr>pm_content := pm_content p @ map Some bs\<rparr>)"
proof (induction bs arbitrary: i dss p)
  case Nil
  then show ?case by simp
next
  case (Cons b bs)
  obtain ds dss' where dss: "dss = ds # dss'" "fragmentsFit parse b ds" "list_all2 (fragmentsFit parse) bs dss'"
    using Cons.prems(2) by (auto simp: list_all2_Cons1)
  let ?p1 = "p\<lparr>pm_content := pm_content p @ [Some b]\<rparr>"
  have 1: "rebuild parse (blockEvents i b ds) p = Inr ?p1"
    using Cons.prems dss by (intro rebuild_blockEvents) simp_all
  have 2: "rebuild parse (contentEvents (Suc i) bs dss') ?p1 = Inr (?p1\<lparr>pm_content := pm_content ?p1 @ map Some bs\<rparr>)"
    using Cons.prems dss by (intro Cons.IH) simp_all
  show ?case using dss(1) 1 2 by (simp add: rebuild_append)
qed

lemma proxy_example_eval:
  "conformant exampleParser signedMessage [[]]"
  "rebuiltContent exampleParser (wireEvents signedMessage [[]]) (initialPartial modelB 0)
     = Some [Some (ToolCallBlock (signedCall\<lparr>tc_thoughtSignature := None\<rparr>))]"
  "am_content signedMessage = [ToolCallBlock signedCall]"
  "conformant exampleParser helloMessage helloFragments"
  "list_all noThoughtSignature (am_content helloMessage)"
  "rebuiltContent exampleParser (wireEvents helloMessage helloFragments) (initialPartial modelB 0)
     = Some (map Some (am_content helloMessage))"
  by code_simp+

text \<open>
  Claim C9 (proxy codec round trip), as stated: rebuilding from the stripped events of
  any conformant sequence reproduces the content blocks of the original message,
  tool calls with their signatures included. The statement fails for a tool call with
  a \<open>thoughtSignature\<close>: no wire event carries it, and the rebuilt call has none.
\<close>

theorem proxy_loses_thought_signature:
  "conformant exampleParser signedMessage [[]] \<and>
   rebuiltContent exampleParser (wireEvents signedMessage [[]]) (initialPartial modelB 0)
     = Some [Some (ToolCallBlock (signedCall\<lparr>tc_thoughtSignature := None\<rparr>))] \<and>
   rebuiltContent exampleParser (wireEvents signedMessage [[]]) (initialPartial modelB 0)
     \<noteq> Some (map Some (am_content signedMessage))"
  using proxy_example_eval(1,2,3) by (simp add: signedCall_def)

text \<open>
  Claim C9, amended: for every final assistant message none of whose tool calls has a
  \<open>thoughtSignature\<close>, every conformant sequence of fragments, every model and clock
  reading of the client, the client's loop over the stripped events ends without an
  error, and the message it has rebuilt has the content blocks of the original (text and
  thinking with their signatures, tool calls with id, name and parsed arguments), its
  stopReason and its usage.
\<close>

theorem proxy_round_trip_without_thought_signature:
  assumes "conformant parse message fragments"
    and "list_all noThoughtSignature (am_content message)"
  shows "\<exists>p. rebuild parse (wireEvents message fragments) (initialPartial model now) = Inr p \<and>
     pm_content p = map Some (am_content message) \<and>
     pm_stopReason p = am_stopReason message \<and>
     pm_usage p = am_usage message"
proof -
  let ?p0 = "initialPartial model now"
  let ?p1 = "?p0\<lparr>pm_content := pm_content ?p0 @ map Some (am_content message)\<rparr>"
  have c: "rebuild parse (contentEvents 0 (am_content message) fragments) ?p0 = Inr ?p1"
    using assms by (intro rebuild_contentEvents) (simp_all add: conformant_def initialPartial_def)
  have "rebuild parse (wireEvents message fragments) ?p0 = rebuild parse [terminalEvent message] ?p1"
    using c by (simp add: wireEvents_def rebuild_Cons rebuild_append)
  then show ?thesis
    by (auto simp: terminalEvent_def rebuild_Cons Let_def initialPartial_def)
qed

theorem proxy_round_trip_without_thought_signature_witness:
  "conformant exampleParser helloMessage helloFragments \<and>
   list_all noThoughtSignature (am_content helloMessage) \<and>
   rebuiltContent exampleParser (wireEvents helloMessage helloFragments) (initialPartial modelB 0)
     = Some (map Some (am_content helloMessage))"
  using proxy_round_trip_without_thought_signature[OF proxy_example_eval(4,5), of modelB 0] proxy_example_eval(4,5,6)
  by simp

end
